theory Spec2Isabelle
  imports Complex_Main "HOL-Library.Multiset"
begin

section \<open>MDEE: momentum-contrastive training module (moco3\_module.py)\<close>

text \<open>
  A shallow embedding of the class \<open>MDEE\<close>. A two-dimensional tensor is a list of
  rows, a three-dimensional one a list of those. Tensor entries are real numbers:
  the arithmetic of the module is followed operation by operation, rounding is not
  modelled. Sizes, indices and the queue pointer are natural numbers: the pointer
  buffer starts at zero and is only ever assigned the value of
  \<open>(ptr + batch_size) % num_negatives\<close>.
\<close>

type_synonym vec = "real list"
type_synonym tensor2 = "real list list"
type_synonym tensor3 = "real list list list"

text \<open>
  The exceptions of the source. \<open>NonFinite\<close> is none of them: it marks a call in
  which a symbolic distance divides by zero. The source goes on with \<open>inf\<close>, \<open>-inf\<close>
  or \<open>nan\<close>, as the signs of the floating-point zeros decide; real numbers carry
  no such sign, and the model follows the call no further.
\<close>

datatype error =
  RuntimeError | ZeroDivisionError | UnboundLocalError | IndexError | ValueError | NonFinite

subsection \<open>Hyper-parameters and module state\<close>

record hparams =
  emb_dim :: nat
  num_negatives :: nat
  encoder_momentum :: real
  softmax_temperature :: real
  batch_size :: nat
  use_knn :: bool
  use_kmeans :: bool
  alpha :: real
  topk :: nat
  metric :: string

text \<open>
  The buffers and parameters the module owns. Each encoder's parameters are a list
  of parameter tensors, each flattened to a vector.
\<close>

record mdee =
  encoder_q :: "vec list"
  encoder_k :: "vec list"
  encoder_kmeans :: "tensor2 \<times> vec"
  queue :: tensor2
  queue_ptr :: nat
  val_queue :: tensor2
  val_queue_ptr :: nat

subsection \<open>Collective communication\<close>

text \<open>
  \<open>concat_all_gather\<close>: every worker contributes one tensor, the results are
  concatenated along the batch axis in rank order. \<open>peers\<close> lists what the workers
  of the group contribute (its length is the world size); the calling worker's own
  contribution stands at its rank.
\<close>

definition concat_all_gather :: "'a list list \<Rightarrow> nat \<Rightarrow> 'a list \<Rightarrow> 'a list" where
  "concat_all_gather peers rnk t = concat (peers[rnk := t])"

subsection \<open>Momentum update of the key encoder\<close>

text \<open>
  \<open>for param_q, param_k in zip(...): param_k.data = param_k.data * em + param_q.data * (1.0 - em)\<close>.
  \<open>zip\<close> stops at the shorter parameter list; key parameters beyond it keep
  their value. The tensor arithmetic is elementwise; both encoders are instances
  of one template, so corresponding parameters have the same shape.
\<close>

definition blend :: "real \<Rightarrow> vec \<Rightarrow> vec \<Rightarrow> vec" where
  "blend em param_q param_k = map (\<lambda>(k, q). k * em + q * (1 - em)) (zip param_k param_q)"

fun momentum_params :: "real \<Rightarrow> vec list \<Rightarrow> vec list \<Rightarrow> vec list" where
  "momentum_params em (pq # pqs) (pk # pks) = blend em pq pk # momentum_params em pqs pks"
| "momentum_params em pqs pks = pks"

definition momentum_update_key_encoder :: "hparams \<Rightarrow> mdee \<Rightarrow> mdee" where
  "momentum_update_key_encoder hp s =
     s\<lparr>encoder_k := momentum_params (encoder_momentum hp) (encoder_q s) (encoder_k s)\<rparr>"

subsection \<open>The negative queue\<close>

text \<open>
  The queue is a matrix of \<open>emb_dim\<close> rows and \<open>num_negatives\<close> columns, the keys a
  batch of rows of width \<open>emb_dim\<close>.

  \<open>queue[:, ptr: ptr + batch_size] = keys.T\<close>: the slice is clipped to the
  columns the queue has, and the transposed keys are copied into it, broadcast
  where one of their dimensions is 1; any other difference of shape raises
  \<open>RuntimeError\<close>. An empty batch carries no width in this model and is taken to
  fit.
\<close>

definition ncols :: "'a list list \<Rightarrow> nat" where
  "ncols t = (case t of [] \<Rightarrow> 0 | r # _ \<Rightarrow> length r)"

definition slice_len :: "nat \<Rightarrow> nat \<Rightarrow> nat \<Rightarrow> nat" where
  "slice_len n ptr bs = min n (ptr + bs) - min n ptr"

text \<open>Row \<open>d\<close> of \<open>keys.T\<close>, expanded to \<open>len\<close> columns.\<close>

definition keys_T :: "tensor2 \<Rightarrow> nat \<Rightarrow> nat \<Rightarrow> vec" where
  "keys_T keys d len =
     (if length keys = len then map (\<lambda>k. if length k = 1 then k ! 0 else k ! d) keys
      else map (\<lambda>_. (if length (keys ! 0) = 1 then keys ! 0 ! 0 else keys ! 0 ! d)) [0..<len])"

definition assign_cols :: "tensor2 \<Rightarrow> nat \<Rightarrow> tensor2 \<Rightarrow> error + tensor2" where
  "assign_cols q ptr keys =
     (let bs = length keys;
          rows = length q;
          len = slice_len (ncols q) ptr bs
      in if (list_all (\<lambda>k. length k = rows) keys \<or> list_all (\<lambda>k. length k = 1) keys)
            \<and> (bs = len \<or> bs = 1)
         then Inr (map (\<lambda>row. take ptr (q ! row) @ keys_T keys row len @ drop (ptr + len) (q ! row))
                     [0..<rows])
         else Inl RuntimeError)"

text \<open>
  \<open>_dequeue_and_enqueue(keys, queue_ptr, queue)\<close>. \<open>ddp\<close> is \<open>None\<close> outside
  distributed training and otherwise holds the key batches of the group and the
  caller's rank. The two buffers are passed in and returned updated; a raise leaves
  no result.
\<close>

definition gathered_keys :: "(tensor2 list \<times> nat) option \<Rightarrow> tensor2 \<Rightarrow> tensor2" where
  "gathered_keys ddp keys =
     (case ddp of None \<Rightarrow> keys | Some (peers, rnk) \<Rightarrow> concat_all_gather peers rnk keys)"

definition dequeue_and_enqueue ::
  "hparams \<Rightarrow> (tensor2 list \<times> nat) option \<Rightarrow> tensor2 \<Rightarrow> nat \<Rightarrow> tensor2 \<Rightarrow> error + (nat \<times> tensor2)" where
  "dequeue_and_enqueue hp ddp keys0 qptr q =
     (let keys = gathered_keys ddp keys0;
          bsz = length keys;
          ptr = qptr
      in if bsz = batch_size hp then
           (case assign_cols q ptr keys of
              Inl e \<Rightarrow> Inl e
            | Inr q' \<Rightarrow>
                if num_negatives hp = 0 then Inl ZeroDivisionError
                else Inr ((ptr + bsz) mod num_negatives hp, q'))
         else Inr (qptr, q))"

text \<open>A sequence of enqueue calls on one queue, stopping at the first raise.\<close>

fun enqueue_all ::
  "hparams \<Rightarrow> nat \<times> tensor2 \<Rightarrow> ((tensor2 list \<times> nat) option \<times> tensor2) list \<Rightarrow> error + (nat \<times> tensor2)" where
  "enqueue_all hp st [] = Inr st"
| "enqueue_all hp (qptr, q) ((ddp, keys) # calls) =
     (case dequeue_and_enqueue hp ddp keys qptr q of
        Inl e \<Rightarrow> Inl e
      | Inr st' \<Rightarrow> enqueue_all hp st' calls)"

text \<open>
  The states a queue and its pointer can be in: the buffers as the constructor
  makes them (\<open>emb_dim\<close> rows of \<open>num_negatives\<close> columns, pointer 0), and whatever
  an enqueue call that returns leaves behind.
\<close>

definition is_tensor2 :: "nat \<Rightarrow> nat \<Rightarrow> 'a list list \<Rightarrow> bool" where
  "is_tensor2 r c t = (length t = r \<and> list_all (\<lambda>row. length row = c) t)"

inductive reachable :: "hparams \<Rightarrow> nat \<times> tensor2 \<Rightarrow> bool" for hp :: hparams where
  init: "is_tensor2 (emb_dim hp) (num_negatives hp) q \<Longrightarrow> reachable hp (0, q)"
| enq: "reachable hp (p, q) \<Longrightarrow> dequeue_and_enqueue hp ddp keys p q = Inr st' \<Longrightarrow> reachable hp st'"

subsection \<open>Distributed batch shuffle\<close>

text \<open>\<open>torch.argsort\<close>: the indices that sort the values (stable on ties).\<close>

definition argsort :: "'a::linorder list \<Rightarrow> nat list" where
  "argsort xs = sort_key (\<lambda>i. xs ! i) [0..<length xs]"

text \<open>
  \<open>idx.view(num_gpus, -1)[gpu_idx]\<close>: the index vector is cut into \<open>num_gpus\<close>
  rows of equal length and row \<open>gpu_idx\<close> is taken. \<open>view\<close> raises when the length
  is no multiple of \<open>num_gpus\<close> (or \<open>num_gpus\<close> is 0), the indexing when there is
  no such row.
\<close>

definition view_row :: "nat list \<Rightarrow> nat \<Rightarrow> nat \<Rightarrow> error + nat list" where
  "view_row idx num_gpus gpu_idx =
     (if num_gpus = 0 \<or> length idx mod num_gpus \<noteq> 0 then Inl RuntimeError
      else if num_gpus \<le> gpu_idx then Inl IndexError
      else let cols = length idx div num_gpus
           in Inr (take cols (drop (gpu_idx * cols) idx)))"

text \<open>\<open>x_gather[idx_this]\<close>: the rows at the given indices, each of which must exist.\<close>

definition index_rows :: "'a list \<Rightarrow> nat list \<Rightarrow> error + 'a list" where
  "index_rows x_gather idx_this =
     (if list_all (\<lambda>i. i < length x_gather) idx_this
      then Inr (map (\<lambda>i. x_gather ! i) idx_this)
      else Inl IndexError)"

text \<open>
  \<open>_batch_shuffle_ddp(x)\<close> on the worker of rank \<open>rnk\<close>. \<open>peers\<close> are the batches
  the workers contribute to the gather. \<open>idx_shuffle\<close> is the index vector after
  the broadcast from rank 0, that is, the random permutation rank 0 drew; every
  worker holds the same one. The integer division raises on an empty local batch.
\<close>

definition batch_shuffle_ddp ::
  "'a list list \<Rightarrow> nat \<Rightarrow> nat list \<Rightarrow> 'a list \<Rightarrow> error + ('a list \<times> nat list)" where
  "batch_shuffle_ddp peers rnk idx_shuffle x =
     (let batch_size_this = length x;
          x_gather = concat_all_gather peers rnk x;
          batch_size_all = length x_gather
      in if batch_size_this = 0 then Inl ZeroDivisionError
         else
           let num_gpus = batch_size_all div batch_size_this;
               idx_unshuffle = argsort idx_shuffle;
               gpu_idx = rnk
           in case view_row idx_shuffle num_gpus gpu_idx of
                Inl e \<Rightarrow> Inl e
              | Inr idx_this \<Rightarrow>
                  (case index_rows x_gather idx_this of
                     Inl e \<Rightarrow> Inl e
                   | Inr y \<Rightarrow> Inr (y, idx_unshuffle)))"

text \<open>\<open>_batch_unshuffle_ddp(x, idx_unshuffle)\<close> on the worker of rank \<open>rnk\<close>.\<close>

definition batch_unshuffle_ddp ::
  "'a list list \<Rightarrow> nat \<Rightarrow> 'a list \<Rightarrow> nat list \<Rightarrow> error + 'a list" where
  "batch_unshuffle_ddp peers rnk x idx_unshuffle =
     (let batch_size_this = length x;
          x_gather = concat_all_gather peers rnk x;
          batch_size_all = length x_gather
      in if batch_size_this = 0 then Inl ZeroDivisionError
         else
           let num_gpus = batch_size_all div batch_size_this;
               gpu_idx = rnk
           in case view_row idx_unshuffle num_gpus gpu_idx of
                Inl e \<Rightarrow> Inl e
              | Inr idx_this \<Rightarrow> index_rows x_gather idx_this)"

subsection \<open>Collaborators and the distributed context\<close>

text \<open>
  The backbone (\<open>template_model\<close>, applied to a parameter list and a batch of
  images), \<open>functional.cross_entropy\<close> and \<open>precision_at_k\<close> are library code:
  they are parameters of the model.
\<close>

record 'img externals =
  net :: "vec list \<Rightarrow> 'img list \<Rightarrow> tensor2"
  cross_entropy :: "tensor2 \<Rightarrow> vec \<Rightarrow> real"
  precision_at_k :: "tensor2 \<Rightarrow> vec \<Rightarrow> real \<times> real"

text \<open>
  Under distributed training a step takes part in three gathers and one
  broadcast. The context holds the caller's rank, the broadcast index vector, and
  for each gather what the workers of the group contribute to it.
\<close>

record 'img ddp =
  ddp_rank :: nat
  idx_broadcast :: "nat list"
  gather_img_k :: "'img list list"
  gather_feat_k :: "tensor2 list"
  gather_keys :: "tensor2 list"

subsection \<open>Forward pass\<close>

text \<open>
  \<open>nn.functional.normalize(x, dim=1)\<close>: every row is divided by the larger of its
  Euclidean norm and \<open>1e-12\<close>.
\<close>

definition normalize_rows :: "tensor2 \<Rightarrow> tensor2" where
  "normalize_rows t = map (\<lambda>v. map (\<lambda>x. x / max (sqrt (\<Sum>y\<leftarrow>v. y\<^sup>2)) (1 / 10 ^ 12)) v) t"

definition dot :: "vec \<Rightarrow> vec \<Rightarrow> real" where
  "dot u v = (\<Sum>(x, y)\<leftarrow>zip u v. x * y)"

text \<open>
  The three \<open>torch.einsum\<close> calls of \<open>forward\<close>. Operands whose shapes do not
  agree raise (the broadcast of a dimension of size 1 is not modelled).
\<close>

definition same_shape :: "tensor2 \<Rightarrow> tensor2 \<Rightarrow> bool" where
  "same_shape a b = (length a = length b \<and> list_all (\<lambda>(u, v). length u = length v) (zip a b))"

text \<open>\<open>einsum("nc,nc->n", [query, key]).unsqueeze(-1)\<close>\<close>

definition einsum_nc_nc_n :: "tensor2 \<Rightarrow> tensor2 \<Rightarrow> error + tensor2" where
  "einsum_nc_nc_n query key =
     (if same_shape query key then Inr (map (\<lambda>(q, k). [dot q k]) (zip query key))
      else Inl RuntimeError)"

text \<open>\<open>einsum("nc,ck->nk", [query, neg_examples])\<close>\<close>

definition einsum_nc_ck_nk :: "tensor2 \<Rightarrow> tensor2 \<Rightarrow> error + tensor2" where
  "einsum_nc_ck_nk query neg =
     (if list_all (\<lambda>q. length q = length neg) query
           \<and> list_all (\<lambda>row. length row = ncols neg) neg
      then Inr (map (\<lambda>q. map (\<lambda>k. (\<Sum>c\<leftarrow>[0..<length neg]. q ! c * neg ! c ! k)) [0..<ncols neg]) query)
      else Inl RuntimeError)"

text \<open>
  \<open>einsum('nc,njc->nc', [query, neg_examples])\<close>: the output keeps the indices
  \<open>n\<close> and \<open>c\<close>; the index \<open>j\<close> is summed over.
\<close>

definition einsum_nc_njc_nc :: "tensor2 \<Rightarrow> tensor3 \<Rightarrow> error + tensor2" where
  "einsum_nc_njc_nc query neg =
     (if length query = length neg
           \<and> list_all (\<lambda>(q, nb). list_all (\<lambda>y. length y = length q) nb) (zip query neg)
      then Inr (map (\<lambda>(q, nb). map (\<lambda>c. (\<Sum>j\<leftarrow>[0..<length nb]. q ! c * nb ! j ! c)) [0..<length q])
                  (zip query neg))
      else Inl RuntimeError)"

subsection \<open>KNN negative mining\<close>

definition transpose_t :: "tensor2 \<Rightarrow> tensor2" where
  "transpose_t t = map (\<lambda>j. map (\<lambda>row. row ! j) t) [0..<ncols t]"

definition sq_dist :: "vec \<Rightarrow> vec \<Rightarrow> real" where
  "sq_dist x y = (\<Sum>(a, b)\<leftarrow>zip x y. (a - b)\<^sup>2)"

text \<open>
  Division in a symbolic distance: the quotient, unless the divisor is zero.
\<close>

definition fdiv :: "real \<Rightarrow> real \<Rightarrow> real option" where
  "fdiv a b = (if b = 0 then None else Some (a / b))"

text \<open>
  The \<open>if/elif\<close> chain over \<open>self.metric\<close>, one symbolic distance per recognised
  name; the chain has no \<open>else\<close>. \<open>(X_i | X_j)\<close> is the scalar product, \<open>X_i[0]\<close>
  the first coordinate.
\<close>

definition metric_distance :: "string \<Rightarrow> (vec \<Rightarrow> vec \<Rightarrow> real option) option" where
  "metric_distance m =
     (if m = ''euclidean'' then Some (\<lambda>x y. Some (sq_dist x y))
      else if m = ''manhattan'' then Some (\<lambda>x y. Some (\<Sum>(a, b)\<leftarrow>zip x y. \<bar>a - b\<bar>))
      else if m = ''angular'' then Some (\<lambda>x y. Some (- dot x y))
      else if m = ''hyperbolic'' then Some (\<lambda>x y. fdiv (sq_dist x y) (x ! 0 * y ! 0))
      else if m = ''ang+hyper''
        then Some (\<lambda>x y. map_option (\<lambda>h. - dot x y + h) (fdiv (sq_dist x y) (x ! 0 * y ! 0)))
      else None)"

text \<open>
  \<open>D_ij.argKmin(K, dim=1)\<close> of the KeOps library, for one query and finite
  distances. The reduction keeps \<open>K\<close> slots, each starting as the pair (infinity,
  index 0), and takes the points in index order; a point goes in front of the
  first slot holding a strictly larger distance. So the result lists the nearest
  points first, equal distances by index, and with fewer than \<open>K\<close> points the
  slots never filled keep index 0.
\<close>

definition argKmin :: "nat \<Rightarrow> real list \<Rightarrow> nat list" where
  "argKmin K ds = take K (argsort ds) @ replicate (K - length ds) 0"

text \<open>\<open>queue[index_knn, :]\<close>: for every query the rows at its indices, which must exist.\<close>

definition gather_rows :: "'a list \<Rightarrow> nat list list \<Rightarrow> error + 'a list list" where
  "gather_rows t index =
     (if list_all (list_all (\<lambda>j. j < length t)) index
      then Inr (map (\<lambda>idx. map (\<lambda>j. t ! j) idx) index)
      else Inl IndexError)"

text \<open>
  \<open>knn_approx(query)\<close>. The point set is always \<open>self.queue\<close>. An unrecognised
  metric leaves \<open>D_ij\<close> unassigned, and its first use raises. The symbolic
  distance needs queries and queue entries of one positive width.
\<close>

definition knn_approx :: "hparams \<Rightarrow> mdee \<Rightarrow> tensor2 \<Rightarrow> error + tensor3" where
  "knn_approx hp s query =
     (let queue_T = transpose_t (queue s)
      in case metric_distance (metric hp) of
           None \<Rightarrow> Inl UnboundLocalError
         | Some D_ij \<Rightarrow>
             if list_all (\<lambda>x. x \<noteq> [] \<and> length x = length (queue s)) query
             then let dists = map (\<lambda>x. map (\<lambda>y. D_ij x y) queue_T) query
                  in if list_all (list_all (\<lambda>d. d \<noteq> None)) dists
                     then let index_knn = map (\<lambda>ds. argKmin (topk hp) (map the ds)) dists
                          in gather_rows queue_T index_knn
                     else Inl NonFinite
             else Inl ValueError)"

text \<open>
  The key features of \<open>forward\<close>: the key images are shuffled across the group
  (distributed training only), encoded by the key encoder, normalised, and
  shuffled back.
\<close>

definition key_features ::
  "'img externals \<Rightarrow> mdee \<Rightarrow> 'img ddp option \<Rightarrow> 'img list \<Rightarrow> error + tensor2" where
  "key_features ext s env img_k =
     (case env of
        None \<Rightarrow> Inr (normalize_rows (net ext (encoder_k s) img_k))
      | Some w \<Rightarrow>
          (case batch_shuffle_ddp (gather_img_k w) (ddp_rank w) (idx_broadcast w) img_k of
             Inl e \<Rightarrow> Inl e
           | Inr (img_k', idx_unshuffle) \<Rightarrow>
               batch_unshuffle_ddp (gather_feat_k w) (ddp_rank w)
                 (normalize_rows (net ext (encoder_k s) img_k')) idx_unshuffle))"

text \<open>
  \<open>forward(img_q, img_k, queue)\<close>, returning \<open>(logits, labels, query, key)\<close>.
\<close>

definition forward ::
  "hparams \<Rightarrow> 'img externals \<Rightarrow> mdee \<Rightarrow> 'img ddp option \<Rightarrow> 'img list \<Rightarrow> 'img list \<Rightarrow> tensor2
     \<Rightarrow> error + (tensor2 \<times> vec \<times> tensor2 \<times> tensor2)" where
  "forward hp ext s env img_q img_k queue_arg =
     (let query = normalize_rows (net ext (encoder_q s) img_q)
      in case key_features ext s env img_k of
           Inl e \<Rightarrow> Inl e
         | Inr key \<Rightarrow>
             (case einsum_nc_nc_n query key of
                Inl e \<Rightarrow> Inl e
              | Inr l_pos \<Rightarrow>
                  (case (if use_knn hp
                         then (case knn_approx hp s query of
                                 Inl e \<Rightarrow> Inl e
                               | Inr neg_examples \<Rightarrow> einsum_nc_njc_nc query neg_examples)
                         else einsum_nc_ck_nk query queue_arg) of
                     Inl e \<Rightarrow> Inl e
                   | Inr l_neg \<Rightarrow>
                       let logits = map (\<lambda>(p, n). p @ n) (zip l_pos l_neg);
                           logits = map (map (\<lambda>x. x / softmax_temperature hp)) logits;
                           labels = replicate (length logits) 0
                       in Inr (logits, labels, query, key))))"

subsection \<open>Clustering loss\<close>

text \<open>\<open>nn.Linear\<close> with weight rows \<open>W\<close> and bias \<open>b\<close>, and \<open>nn.Softmax(dim=1)\<close>.\<close>

definition linear_layer :: "tensor2 \<times> vec \<Rightarrow> tensor2 \<Rightarrow> tensor2" where
  "linear_layer Wb x = map (\<lambda>row. map (\<lambda>(w, b). dot row w + b) (zip (fst Wb) (snd Wb))) x"

definition softmax_rows :: "tensor2 \<Rightarrow> tensor2" where
  "softmax_rows t = map (\<lambda>v. map (\<lambda>x. exp x / (\<Sum>y\<leftarrow>v. exp y)) v) t"

definition sum_prod :: "tensor2 \<Rightarrow> tensor2 \<Rightarrow> real" where
  "sum_prod a b = (\<Sum>(u, v)\<leftarrow>zip a b. dot u v)"

definition kmeans_loss :: "hparams \<Rightarrow> mdee \<Rightarrow> tensor2 \<Rightarrow> tensor2 \<Rightarrow> real" where
  "kmeans_loss hp s query key =
     (let kmeans_query = linear_layer (encoder_kmeans s) (normalize_rows query);
          kmeans_key = linear_layer (encoder_kmeans s) (normalize_rows key);
          kmeans_query_labels = softmax_rows (map (map (\<lambda>x. alpha hp * x)) kmeans_query);
          kmeans_key_labels = softmax_rows (map (map (\<lambda>x. alpha hp * x)) kmeans_key)
      in - (sum_prod kmeans_query_labels kmeans_query + sum_prod kmeans_key_labels kmeans_key)
           / alpha hp)"

subsection \<open>Training and validation steps\<close>

text \<open>
  \<open>precision_at_k(output, target, top_k=(1, 5))\<close> starts with
  \<open>output.topk(5, 1)\<close>, which raises on fewer than five columns, and divides by
  the batch size. An empty batch carries no width in this model; it is taken to
  reach the division. The values are the collaborator's.
\<close>

definition precision_at_1_5 :: "'img externals \<Rightarrow> tensor2 \<Rightarrow> vec \<Rightarrow> error + (real \<times> real)" where
  "precision_at_1_5 ext outp target =
     (if outp = [] then Inl ZeroDivisionError
      else if ncols outp < 5 then Inl RuntimeError
      else Inr (precision_at_k ext outp target))"

text \<open>
  The steps receive the two views \<open>(img_1, img_2)\<close> of the batch (the unpacking
  of the loader's batch is not modelled). A step that returns gives what the
  source returns, the logged metrics, and the module as the step leaves it; a
  step that raises gives the exception and the module as it is at that moment.
\<close>

definition enqueue_gather :: "'img ddp option \<Rightarrow> (tensor2 list \<times> nat) option" where
  "enqueue_gather env = map_option (\<lambda>w. (gather_keys w, ddp_rank w)) env"

definition training_step ::
  "hparams \<Rightarrow> 'img externals \<Rightarrow> mdee \<Rightarrow> 'img ddp option \<Rightarrow> 'img list \<Rightarrow> 'img list
     \<Rightarrow> (error \<times> mdee) + (real \<times> (real \<times> real \<times> real) \<times> mdee)" where
  "training_step hp ext s env img_1 img_2 =
     (let s1 = momentum_update_key_encoder hp s
      in case forward hp ext s1 env img_1 img_2 (queue s1) of
           Inl e \<Rightarrow> Inl (e, s1)
         | Inr (outp, target, query, keys) \<Rightarrow>
             (case dequeue_and_enqueue hp (enqueue_gather env) keys (queue_ptr s1) (queue s1) of
                Inl e \<Rightarrow> Inl (e, s1)
              | Inr (ptr', queue') \<Rightarrow>
                  let s2 = s1\<lparr>queue := queue', queue_ptr := ptr'\<rparr>;
                      loss = cross_entropy ext outp target;
                      loss = (if use_kmeans hp then loss + kmeans_loss hp s2 query keys else loss)
                  in case precision_at_1_5 ext outp target of
                       Inl e \<Rightarrow> Inl (e, s2)
                     | Inr acc \<Rightarrow> Inr (loss, (loss, fst acc, snd acc), s2)))"

definition validation_step ::
  "hparams \<Rightarrow> 'img externals \<Rightarrow> mdee \<Rightarrow> 'img ddp option \<Rightarrow> 'img list \<Rightarrow> 'img list
     \<Rightarrow> (error \<times> mdee) + ((real \<times> real \<times> real) \<times> mdee)" where
  "validation_step hp ext s env img_1 img_2 =
     (case forward hp ext s env img_1 img_2 (val_queue s) of
        Inl e \<Rightarrow> Inl (e, s)
      | Inr (outp, target, query, keys) \<Rightarrow>
          (case dequeue_and_enqueue hp (enqueue_gather env) keys (val_queue_ptr s) (val_queue s) of
             Inl e \<Rightarrow> Inl (e, s)
           | Inr (ptr', queue') \<Rightarrow>
               let s2 = s\<lparr>val_queue := queue', val_queue_ptr := ptr'\<rparr>;
                   loss = cross_entropy ext outp target;
                   loss = (if use_kmeans hp then loss + kmeans_loss hp s2 query keys else loss)
               in case precision_at_1_5 ext outp target of
                    Inl e \<Rightarrow> Inl (e, s2)
                  | Inr acc \<Rightarrow> Inr ((loss, fst acc, snd acc), s2)))"

text \<open>The module a training step leaves behind, whether it returns or raises.\<close>

definition module_after :: "(error \<times> mdee) + ('r \<times> 'm \<times> mdee) \<Rightarrow> mdee" where
  "module_after r = (case r of Inl (e, s) \<Rightarrow> s | Inr (x, m, s) \<Rightarrow> s)"

subsection \<open>Concrete inputs\<close>

text \<open>The metric names \<open>knn_approx\<close> has a branch for.\<close>

definition supported_metrics :: "string list" where
  "supported_metrics = [''euclidean'', ''manhattan'', ''angular'', ''hyperbolic'', ''ang+hyper'']"

text \<open>
  A stand-in backbone for runs on concrete inputs: images are feature vectors, and
  the encoder scales them coordinate by coordinate with its first parameter.
\<close>

definition scale_net :: "vec list \<Rightarrow> vec list \<Rightarrow> tensor2" where
  "scale_net params imgs = map (\<lambda>img. map (\<lambda>(w, x). w * x) (zip (params ! 0) img)) imgs"

text \<open>Collaborators for closed runs: the stand-in backbone, constant loss and metrics.\<close>

definition stub_ext :: "vec externals" where
  "stub_ext = \<lparr>net = scale_net, cross_entropy = (\<lambda>output target. 0),
       precision_at_k = (\<lambda>output target. (1, 1))\<rparr>"

text \<open>
  A configuration on the KNN path (two-dimensional embeddings, four queue slots,
  three neighbours) and a module whose training queue holds the unit vectors
  \<open>(0,1), (-1,0), (1,0), (3/5,4/5)\<close> and whose validation queue holds \<open>(0,-1)\<close>
  four times.
\<close>

definition knn_hp :: hparams where
  "knn_hp = \<lparr>emb_dim = 2, num_negatives = 4, encoder_momentum = 0, softmax_temperature = 1,
       batch_size = 1, use_knn = True, use_kmeans = False, alpha = 1, topk = 3,
       metric = ''euclidean''\<rparr>"

definition knn_state :: mdee where
  "knn_state = \<lparr>encoder_q = [[1, 1]], encoder_k = [[1, 1]], encoder_kmeans = ([], []),
       queue = [[0, -1, 1, 3/5], [1, 0, 0, 4/5]], queue_ptr = 0,
       val_queue = [[0, 0, 0, 0], [-1, -1, -1, -1]], val_queue_ptr = 0\<rparr>"

text \<open>
  The same on four-dimensional embeddings, where the KNN path yields five logit
  columns: the training queue holds \<open>(0,1,0,0), (-1,0,0,0), (1,0,0,0),
  (3/5,4/5,0,0)\<close>, the validation queue \<open>(0,-1,0,0)\<close> four times.
\<close>

definition knn_hp4 :: hparams where
  "knn_hp4 = \<lparr>emb_dim = 4, num_negatives = 4, encoder_momentum = 0, softmax_temperature = 1,
       batch_size = 1, use_knn = True, use_kmeans = False, alpha = 1, topk = 3,
       metric = ''euclidean''\<rparr>"

definition knn_state4 :: mdee where
  "knn_state4 = \<lparr>encoder_q = [[1, 1, 1, 1]], encoder_k = [[1, 1, 1, 1]], encoder_kmeans = ([], []),
       queue = [[0, -1, 1, 3/5], [1, 0, 0, 4/5], [0, 0, 0, 0], [0, 0, 0, 0]], queue_ptr = 0,
       val_queue = [[0, 0, 0, 0], [-1, -1, -1, -1], [0, 0, 0, 0], [0, 0, 0, 0]],
       val_queue_ptr = 0\<rparr>"

text \<open>A small configuration, used to run the definitions on concrete inputs.\<close>

definition small_hp :: hparams where
  "small_hp = \<lparr>emb_dim = 2, num_negatives = 4, encoder_momentum = 3/4, softmax_temperature = 1,
       batch_size = 2, use_knn = False, use_kmeans = False, alpha = 1, topk = 1,
       metric = ''euclidean''\<rparr>"

section \<open>Properties\<close>

subsection \<open>Momentum update\<close>

lemma length_momentum_params: "length (momentum_params em pqs pks) = length pks"
  by (induction em pqs pks rule: momentum_params.induct) simp_all

lemma momentum_params_nth:
  "i < length pqs \<Longrightarrow> i < length pks \<Longrightarrow>
   momentum_params em pqs pks ! i = blend em (pqs ! i) (pks ! i)"
proof (induction em pqs pks arbitrary: i rule: momentum_params.induct)
  case (1 em pq pqs pk pks)
  then show ?case by (cases i) simp_all
qed simp_all

lemma blend_nth:
  "j < length pk \<Longrightarrow> j < length pq \<Longrightarrow> blend em pq pk ! j = pk ! j * em + pq ! j * (1 - em)"
  by (simp add: blend_def)

text \<open>
  C4. One momentum update with coefficient \<open>m\<close> sets every entry of every key
  parameter that has a corresponding query parameter to \<open>m\<close> times its old value
  plus \<open>1 - m\<close> times the query entry. The update returns nothing but the changed
  module: the key encoder still has as many parameters, and every other part of
  the state is as before.
\<close>

theorem momentum_blend_exact:
  assumes "i < length (encoder_q s)" and "i < length (encoder_k s)"
    and "j < length (encoder_q s ! i)" and "j < length (encoder_k s ! i)"
  shows "encoder_k (momentum_update_key_encoder hp s) ! i ! j
           = encoder_momentum hp * (encoder_k s ! i ! j)
             + (1 - encoder_momentum hp) * (encoder_q s ! i ! j)
         \<and> length (encoder_k (momentum_update_key_encoder hp s)) = length (encoder_k s)
         \<and> momentum_update_key_encoder hp s
             = s\<lparr>encoder_k := encoder_k (momentum_update_key_encoder hp s)\<rparr>"
  using assms
  by (simp add: momentum_update_key_encoder_def momentum_params_nth blend_nth
      length_momentum_params mult.commute)

theorem momentum_blend_exact_witness:
  "encoder_k (momentum_update_key_encoder
      \<lparr>emb_dim = 2, num_negatives = 4, encoder_momentum = 3/4, softmax_temperature = 1,
       batch_size = 2, use_knn = False, use_kmeans = False, alpha = 1, topk = 1,
       metric = ''euclidean''\<rparr>
      \<lparr>encoder_q = [[4, 8]], encoder_k = [[0, 4]], encoder_kmeans = ([], []),
       queue = [], queue_ptr = 0, val_queue = [], val_queue_ptr = 0\<rparr>) ! 0 ! 1 = 5"
  using momentum_blend_exact [of 0
      "\<lparr>encoder_q = [[4, 8]], encoder_k = [[0, 4]], encoder_kmeans = ([], []),
        queue = [], queue_ptr = 0, val_queue = [], val_queue_ptr = 0\<rparr>" 1
      "\<lparr>emb_dim = 2, num_negatives = 4, encoder_momentum = 3/4, softmax_temperature = 1,
       batch_size = 2, use_knn = False, use_kmeans = False, alpha = 1, topk = 1,
       metric = ''euclidean''\<rparr>"]
  by simp

subsection \<open>Enqueue\<close>

text \<open>
  C3. An enqueue call whose (gathered) batch does not have the configured batch
  size returns normally and leaves the queue and its pointer as they were.
\<close>

theorem enqueue_skip_on_mismatch:
  "length (gathered_keys ddp keys) \<noteq> batch_size hp \<Longrightarrow>
   dequeue_and_enqueue hp ddp keys qptr q = Inr (qptr, q)"
  by (simp add: dequeue_and_enqueue_def Let_def)

theorem enqueue_skip_on_mismatch_witness:
  "dequeue_and_enqueue
      \<lparr>emb_dim = 2, num_negatives = 4, encoder_momentum = 3/4, softmax_temperature = 1,
       batch_size = 2, use_knn = False, use_kmeans = False, alpha = 1, topk = 1,
       metric = ''euclidean''\<rparr>
      None [[1, 0]] 2 [[1, 0, 1, 0], [0, 1, 0, 1]]
    = Inr (2, [[1, 0, 1, 0], [0, 1, 0, 1]])"
  using enqueue_skip_on_mismatch [of None "[[1, 0]]"
      "\<lparr>emb_dim = 2, num_negatives = 4, encoder_momentum = 3/4, softmax_temperature = 1,
       batch_size = 2, use_knn = False, use_kmeans = False, alpha = 1, topk = 1,
       metric = ''euclidean''\<rparr>" 2 "[[1, 0, 1, 0], [0, 1, 0, 1]]"]
  by (simp add: gathered_keys_def)

lemma ncols_tensor2: "is_tensor2 r c t \<Longrightarrow> 0 < r \<Longrightarrow> ncols t = c"
  by (cases t) (simp_all add: is_tensor2_def ncols_def)

lemma keys_T_full:
  assumes "is_tensor2 bs d keys" and "row < d"
  shows "keys_T keys row bs = map (\<lambda>k. k ! row) keys"
proof -
  have "\<And>k. k \<in> set keys \<Longrightarrow> (if length k = 1 then k ! 0 else k ! row) = k ! row"
    using assms by (auto simp: is_tensor2_def list_all_iff)
  then show ?thesis using assms by (simp add: keys_T_def is_tensor2_def)
qed

lemma assign_cols_fits:
  assumes q: "is_tensor2 d n q" and d: "0 < d" and k: "is_tensor2 bs d keys"
    and fit: "ptr + bs \<le> n"
  shows "assign_cols q ptr keys =
           Inr (map (\<lambda>row. take ptr (q ! row) @ map (\<lambda>k. k ! row) keys @ drop (ptr + bs) (q ! row))
                  [0..<d])"
proof -
  have len: "slice_len (ncols q) ptr bs = bs"
    using ncols_tensor2 [OF q d] fit by (simp add: slice_len_def)
  have shp: "list_all (\<lambda>k. length k = d) keys"
    using q k by (simp add: is_tensor2_def)
  have lk: "length keys = bs" and lq: "length q = d" using q k by (simp_all add: is_tensor2_def)
  show ?thesis
    using keys_T_full [OF k] by (simp add: assign_cols_def Let_def len shp lk lq)
qed

lemma assign_cols_overflow:
  assumes q: "is_tensor2 d n q" and d: "0 < d" and p: "ptr < n" and over: "n < ptr + length keys"
  shows "assign_cols q ptr keys = Inl RuntimeError"
proof -
  have "slice_len (ncols q) ptr (length keys) = n - ptr"
    using ncols_tensor2 [OF q d] p over by (simp add: slice_len_def)
  then show ?thesis using p over by (auto simp: assign_cols_def Let_def)
qed

lemma is_tensor2_written:
  assumes q: "is_tensor2 d n q" and k: "is_tensor2 bs d keys" and fit: "ptr + bs \<le> n"
  shows "is_tensor2 d n (map (\<lambda>row. take ptr (q ! row) @ map (\<lambda>k. k ! row) keys @ drop (ptr + bs) (q ! row)) [0..<d])"
  using assms by (auto simp: is_tensor2_def list_all_length)

lemma enqueue_full_fits:
  assumes d: "0 < emb_dim hp" and n: "0 < num_negatives hp"
    and q: "is_tensor2 (emb_dim hp) (num_negatives hp) q"
    and k: "is_tensor2 (batch_size hp) (emb_dim hp) (gathered_keys ddp keys)"
    and fit: "ptr + batch_size hp \<le> num_negatives hp"
  shows "dequeue_and_enqueue hp ddp keys ptr q =
           Inr ((ptr + batch_size hp) mod num_negatives hp,
                map (\<lambda>row. take ptr (q ! row) @ map (\<lambda>k. k ! row) (gathered_keys ddp keys)
                             @ drop (ptr + batch_size hp) (q ! row))
                  [0..<emb_dim hp])"
proof -
  have "length (gathered_keys ddp keys) = batch_size hp"
    using k by (simp add: is_tensor2_def)
  then show ?thesis
    using assign_cols_fits [OF q d k fit] n by (simp add: dequeue_and_enqueue_def Let_def)
qed

lemma enqueue_full_overflow:
  assumes d: "0 < emb_dim hp"
    and q: "is_tensor2 (emb_dim hp) (num_negatives hp) q"
    and k: "length (gathered_keys ddp keys) = batch_size hp"
    and p: "ptr < num_negatives hp"
    and over: "num_negatives hp < ptr + batch_size hp"
  shows "dequeue_and_enqueue hp ddp keys ptr q = Inl RuntimeError"
proof -
  have "assign_cols q ptr (gathered_keys ddp keys) = Inl RuntimeError"
    using assign_cols_overflow [OF q d p] over k by simp
  then show ?thesis using k by (simp add: dequeue_and_enqueue_def Let_def)
qed

lemma enqueue_ptr_step:
  assumes "length (gathered_keys ddp keys) = batch_size hp"
    and "dequeue_and_enqueue hp ddp keys p q = Inr (p', q')"
  shows "p' = (p + batch_size hp) mod num_negatives hp"
  using assms by (auto simp: dequeue_and_enqueue_def Let_def split: sum.splits if_splits)

lemma enqueue_ptr_bound:
  assumes "0 < num_negatives hp" and "p < num_negatives hp"
    and "dequeue_and_enqueue hp ddp keys p q = Inr (p', q')"
  shows "p' < num_negatives hp"
  using assms by (auto simp: dequeue_and_enqueue_def Let_def split: sum.splits if_splits)

lemma reachable_ptr_bound:
  assumes "reachable hp st" and "0 < num_negatives hp"
  shows "fst st < num_negatives hp"
  using assms
proof (induction rule: reachable.induct)
  case (init q)
  then show ?case by simp
next
  case (enq p q ddp keys st')
  then show ?case using enqueue_ptr_bound [of hp p ddp keys q "fst st'" "snd st'"] by simp
qed

lemma enqueue_all_ptr:
  assumes "0 < num_negatives hp"
    and "p < num_negatives hp"
    and "list_all (\<lambda>(ddp, keys). length (gathered_keys ddp keys) = batch_size hp) calls"
    and "enqueue_all hp (p, q) calls = Inr st'"
  shows "fst st' = (p + length calls * batch_size hp) mod num_negatives hp"
  using assms(2-)
proof (induction calls arbitrary: p q)
  case Nil
  then show ?case by auto
next
  case (Cons c calls)
  obtain ddp keys where c: "c = (ddp, keys)" by (cases c)
  from Cons.prems c obtain p1 q1 where
    s1: "dequeue_and_enqueue hp ddp keys p q = Inr (p1, q1)"
    and rest: "enqueue_all hp (p1, q1) calls = Inr st'"
    by (auto split: sum.splits)
  have len: "length (gathered_keys ddp keys) = batch_size hp"
    using Cons.prems c by simp
  have p1: "p1 = (p + batch_size hp) mod num_negatives hp"
    using enqueue_ptr_step [OF len s1] .
  have "p1 < num_negatives hp" using p1 assms(1) by simp
  moreover have "list_all (\<lambda>(ddp, keys). length (gathered_keys ddp keys) = batch_size hp) calls"
    using Cons.prems by simp
  ultimately have "fst st' = (p1 + length calls * batch_size hp) mod num_negatives hp"
    using Cons.IH rest by blast
  then show ?case by (simp add: p1 mod_add_left_eq add.assoc)
qed

lemma dvd_step_fits:
  fixes p bs n :: nat
  assumes "bs dvd p" and "bs dvd n" and "p < n"
  shows "p + bs \<le> n"
proof -
  obtain a where a: "p = bs * a" using assms(1) by (auto simp: dvd_def)
  obtain b where b: "n = bs * b" using assms(2) by (auto simp: dvd_def)
  have "a < b" using assms(3) a b by (metis mult_less_cancel1)
  then have "Suc a \<le> b" by simp
  then have "bs * Suc a \<le> bs * b" by (rule mult_le_mono2)
  then show ?thesis using a b by simp
qed

lemma enqueue_all_total:
  assumes d: "0 < emb_dim hp" and n: "0 < num_negatives hp"
    and dv: "batch_size hp dvd num_negatives hp"
  shows "is_tensor2 (emb_dim hp) (num_negatives hp) q \<Longrightarrow> p < num_negatives hp \<Longrightarrow>
    batch_size hp dvd p \<Longrightarrow>
    list_all (\<lambda>(ddp, keys). is_tensor2 (batch_size hp) (emb_dim hp) (gathered_keys ddp keys)) calls \<Longrightarrow>
    \<exists>st'. enqueue_all hp (p, q) calls = Inr st'"
proof (induction calls arbitrary: p q)
  case Nil
  then show ?case by simp
next
  case (Cons c calls)
  obtain ddp keys where c: "c = (ddp, keys)" by (cases c)
  have k: "is_tensor2 (batch_size hp) (emb_dim hp) (gathered_keys ddp keys)"
    using Cons.prems c by simp
  have fit: "p + batch_size hp \<le> num_negatives hp"
    using dvd_step_fits [OF Cons.prems(3) dv Cons.prems(2)] .
  let ?q' = "map (\<lambda>row. take p (q ! row) @ map (\<lambda>k. k ! row) (gathered_keys ddp keys)
                  @ drop (p + batch_size hp) (q ! row)) [0..<emb_dim hp]"
  let ?p' = "(p + batch_size hp) mod num_negatives hp"
  have s1: "dequeue_and_enqueue hp ddp keys p q = Inr (?p', ?q')"
    using enqueue_full_fits [OF d n Cons.prems(1) k fit] .
  have "is_tensor2 (emb_dim hp) (num_negatives hp) ?q'"
    using is_tensor2_written [OF Cons.prems(1) k fit] .
  moreover have "?p' < num_negatives hp" using n by simp
  moreover have "batch_size hp dvd ?p'"
    using Cons.prems(3) dv by (simp add: dvd_mod)
  moreover have "list_all (\<lambda>(ddp, keys). is_tensor2 (batch_size hp) (emb_dim hp) (gathered_keys ddp keys)) calls"
    using Cons.prems by simp
  ultimately obtain st' where "enqueue_all hp (?p', ?q') calls = Inr st'"
    using Cons.IH by blast
  then show ?case using s1 c by simp
qed

lemma reachable_ptr_dvd:
  assumes "reachable hp st" and "batch_size hp dvd num_negatives hp"
  shows "batch_size hp dvd fst st"
  using assms
proof (induction rule: reachable.induct)
  case (init q)
  then show ?case by simp
next
  case (enq p q ddp keys st')
  then have "batch_size hp dvd p" by simp
  then show ?case using enq.hyps(2) enq.prems
    by (auto simp: dequeue_and_enqueue_def Let_def dvd_mod split: sum.splits if_splits)
qed

lemma reachable_multiple:
  assumes d: "0 < emb_dim hp" and n: "0 < num_negatives hp"
  shows "k * batch_size hp < num_negatives hp \<Longrightarrow>
         \<exists>q. reachable hp (k * batch_size hp, q) \<and> is_tensor2 (emb_dim hp) (num_negatives hp) q"
proof (induction k)
  case 0
  have "is_tensor2 (emb_dim hp) (num_negatives hp) (replicate (emb_dim hp) (replicate (num_negatives hp) 0))"
    by (simp add: is_tensor2_def list_all_length)
  then show ?case using reachable.init [of hp] by auto
next
  case (Suc k)
  then have lt: "k * batch_size hp < num_negatives hp" by simp
  then obtain q where r: "reachable hp (k * batch_size hp, q)"
    and q: "is_tensor2 (emb_dim hp) (num_negatives hp) q"
    using Suc.IH by blast
  let ?keys = "replicate (batch_size hp) (replicate (emb_dim hp) (0::real))"
  let ?p = "k * batch_size hp"
  have k: "is_tensor2 (batch_size hp) (emb_dim hp) (gathered_keys None ?keys)"
    by (simp add: gathered_keys_def is_tensor2_def list_all_length)
  have fit: "?p + batch_size hp \<le> num_negatives hp" using Suc.prems by simp
  let ?q' = "map (\<lambda>row. take ?p (q ! row) @ map (\<lambda>k. k ! row) (gathered_keys None ?keys)
                  @ drop (?p + batch_size hp) (q ! row)) [0..<emb_dim hp]"
  have e: "(?p + batch_size hp) mod num_negatives hp = Suc k * batch_size hp"
  proof -
    have "?p + batch_size hp = Suc k * batch_size hp" by simp
    then show ?thesis using Suc.prems by (simp only: mod_less)
  qed
  have "dequeue_and_enqueue hp None ?keys ?p q = Inr (Suc k * batch_size hp, ?q')"
    using enqueue_full_fits [OF d n q k fit] by (simp only: e)
  then have "reachable hp (Suc k * batch_size hp, ?q')"
    by (rule reachable.enq [OF r])
  moreover have "is_tensor2 (emb_dim hp) (num_negatives hp) ?q'"
    using is_tensor2_written [OF q k fit] .
  ultimately show ?case by blast
qed

lemma reachable_overflow:
  assumes d: "0 < emb_dim hp" and n: "0 < num_negatives hp" and b: "0 < batch_size hp"
    and nd: "\<not> batch_size hp dvd num_negatives hp"
  shows "\<exists>p q. reachable hp (p, q) \<and> num_negatives hp < p + batch_size hp"
proof -
  let ?k = "num_negatives hp div batch_size hp"
  have "num_negatives hp mod batch_size hp \<noteq> 0" using nd by (simp add: dvd_eq_mod_eq_0)
  then have lt: "?k * batch_size hp < num_negatives hp"
    by (metis div_mult_mod_eq less_add_same_cancel1 neq0_conv)
  have "num_negatives hp < ?k * batch_size hp + batch_size hp"
    using b by (metis div_mult_mod_eq add_less_cancel_left mod_less_divisor)
  then show ?thesis using reachable_multiple [OF d n lt] by blast
qed

text \<open>
  C5. With a queue of capacity \<open>N > 0\<close>: in every state the queue can reach the
  pointer satisfies \<open>0 \<le> ptr < N\<close>; an enqueue of a full batch that returns
  leaves the pointer at \<open>(ptr + batch_size) mod N\<close>; a run of \<open>B\<close> full
  batches from pointer 0 that returns ends at \<open>(B * batch_size) mod N\<close>; and
  when \<open>N\<close> is a multiple of the batch size every such run of well-shaped
  batches does return.
\<close>

theorem queue_ptr_circular:
  assumes n: "0 < num_negatives hp"
  shows "(\<forall>p q. reachable hp (p, q) \<longrightarrow> 0 \<le> p \<and> p < num_negatives hp)
       \<and> (\<forall>ddp keys p q p' q'.
            length (gathered_keys ddp keys) = batch_size hp \<longrightarrow>
            dequeue_and_enqueue hp ddp keys p q = Inr (p', q') \<longrightarrow>
            p' = (p + batch_size hp) mod num_negatives hp)
       \<and> (\<forall>calls q st'.
            list_all (\<lambda>(ddp, keys). length (gathered_keys ddp keys) = batch_size hp) calls \<longrightarrow>
            enqueue_all hp (0, q) calls = Inr st' \<longrightarrow>
            fst st' = (length calls * batch_size hp) mod num_negatives hp)
       \<and> (\<forall>calls (q::tensor2).
            0 < emb_dim hp \<longrightarrow> batch_size hp dvd num_negatives hp \<longrightarrow>
            is_tensor2 (emb_dim hp) (num_negatives hp) q \<longrightarrow>
            list_all (\<lambda>(ddp, keys). is_tensor2 (batch_size hp) (emb_dim hp) (gathered_keys ddp keys)) calls \<longrightarrow>
            (\<exists>st'. enqueue_all hp (0, q) calls = Inr st'))"
proof (intro conjI allI impI)
  fix p q assume "reachable hp (p, q)"
  then show "p < num_negatives hp" using reachable_ptr_bound [OF _ n] by fastforce
next
  fix ddp keys p q p' q'
  assume "length (gathered_keys ddp keys) = batch_size hp"
    and "dequeue_and_enqueue hp ddp keys p q = Inr (p', q')"
  then show "p' = (p + batch_size hp) mod num_negatives hp" by (rule enqueue_ptr_step)
next
  fix calls q st'
  assume "list_all (\<lambda>(ddp, keys). length (gathered_keys ddp keys) = batch_size hp) calls"
    and "enqueue_all hp (0, q) calls = Inr st'"
  then show "fst st' = (length calls * batch_size hp) mod num_negatives hp"
    using enqueue_all_ptr [OF n n] by simp
next
  fix calls and q :: tensor2
  assume "0 < emb_dim hp" and "batch_size hp dvd num_negatives hp"
    and "is_tensor2 (emb_dim hp) (num_negatives hp) q"
    and "list_all (\<lambda>(ddp, keys). is_tensor2 (batch_size hp) (emb_dim hp) (gathered_keys ddp keys)) calls"
  then show "\<exists>st'. enqueue_all hp (0, q) calls = Inr st'"
    using enqueue_all_total [of hp q 0 calls] n by simp
qed simp

theorem queue_ptr_circular_witness:
  "0 < num_negatives small_hp
   \<and> enqueue_all small_hp (0, [[9, 9, 9, 9], [8, 8, 8, 8]])
         [(None, [[1, 2], [3, 4]]), (None, [[5, 6], [7, 8]]),
          (Some ([[[0, 0]], [[0, 0]]], 1), [[1, 1]])]
       = Inr (2, [[0, 1, 5, 7], [0, 1, 6, 8]])
   \<and> (2::nat) = (3 * batch_size small_hp) mod num_negatives small_hp"
proof -
  have h: "0 < num_negatives small_hp" by (simp add: small_hp_def)
  let ?calls = "[(None, [[1, 2], [3, 4]]), (None, [[5, 6], [7, 8]]),
          (Some ([[[0, 0]], [[0, 0]]], 1), [[1, 1]])]
          :: ((tensor2 list \<times> nat) option \<times> tensor2) list"
  have run: "enqueue_all small_hp (0, [[9, 9, 9, 9], [8, 8, 8, 8]]) ?calls
       = Inr (2, [[0, 1, 5, 7], [0, 1, 6, 8]])"
    by (simp add: small_hp_def dequeue_and_enqueue_def gathered_keys_def concat_all_gather_def
      assign_cols_def Let_def ncols_def slice_len_def keys_T_def numeral_2_eq_2 upt_rec)
  have full: "list_all (\<lambda>(ddp, keys). length (gathered_keys ddp keys) = batch_size small_hp) ?calls"
    by (simp add: small_hp_def gathered_keys_def concat_all_gather_def)
  have "fst (2::nat, [[0, 1, 5, 7], [0, 1, 6, 8::real]])
          = (length ?calls * batch_size small_hp) mod num_negatives small_hp"
    using queue_ptr_circular [OF h, THEN conjunct2, THEN conjunct2, THEN conjunct1,
        rule_format, OF full run] .
  then have "(2::nat) = (3 * batch_size small_hp) mod num_negatives small_hp"
    by (simp add: small_hp_def)
  then show ?thesis using h run by simp
qed

text \<open>
  C10. With positive embedding width, capacity and batch size, an enqueue of a full
  well-shaped batch at a pointer below the capacity either writes the batch into
  the columns \<open>[ptr, ptr + batch_size)\<close> of every row, leaving all other columns
  as they were, or, when \<open>ptr + batch_size\<close> exceeds the capacity, raises: a
  batch is never wrapped around the end. \<open>ptr + batch_size \<le> N\<close> holds in every
  reachable state exactly when the capacity is a multiple of the batch size.
\<close>

theorem enqueue_contiguous_no_wrap:
  assumes d: "0 < emb_dim hp" and n: "0 < num_negatives hp" and b: "0 < batch_size hp"
  shows "(\<forall>ddp keys ptr (q::tensor2).
            is_tensor2 (emb_dim hp) (num_negatives hp) q \<longrightarrow> ptr < num_negatives hp \<longrightarrow>
            is_tensor2 (batch_size hp) (emb_dim hp) (gathered_keys ddp keys) \<longrightarrow>
            dequeue_and_enqueue hp ddp keys ptr q =
              (if ptr + batch_size hp \<le> num_negatives hp
               then Inr ((ptr + batch_size hp) mod num_negatives hp,
                      map (\<lambda>row. take ptr (q ! row) @ map (\<lambda>k. k ! row) (gathered_keys ddp keys)
                                  @ drop (ptr + batch_size hp) (q ! row))
                        [0..<emb_dim hp])
               else Inl RuntimeError))
       \<and> ((\<forall>p q. reachable hp (p, q) \<longrightarrow> p + batch_size hp \<le> num_negatives hp)
            \<longleftrightarrow> batch_size hp dvd num_negatives hp)"
proof (intro conjI allI impI)
  fix ddp keys ptr and q :: tensor2
  assume q: "is_tensor2 (emb_dim hp) (num_negatives hp) q" and p: "ptr < num_negatives hp"
    and k: "is_tensor2 (batch_size hp) (emb_dim hp) (gathered_keys ddp keys)"
  have len: "length (gathered_keys ddp keys) = batch_size hp" using k by (simp add: is_tensor2_def)
  show "dequeue_and_enqueue hp ddp keys ptr q =
              (if ptr + batch_size hp \<le> num_negatives hp
               then Inr ((ptr + batch_size hp) mod num_negatives hp,
                      map (\<lambda>row. take ptr (q ! row) @ map (\<lambda>k. k ! row) (gathered_keys ddp keys)
                                  @ drop (ptr + batch_size hp) (q ! row))
                        [0..<emb_dim hp])
               else Inl RuntimeError)"
  proof (cases "ptr + batch_size hp \<le> num_negatives hp")
    case True
    then show ?thesis using enqueue_full_fits [OF d n q k] by simp
  next
    case False
    then show ?thesis using enqueue_full_overflow [OF d q len p] by simp
  qed
next
  show "(\<forall>p q. reachable hp (p, q) \<longrightarrow> p + batch_size hp \<le> num_negatives hp)
            \<longleftrightarrow> batch_size hp dvd num_negatives hp"
  proof
    assume all: "\<forall>p q. reachable hp (p, q) \<longrightarrow> p + batch_size hp \<le> num_negatives hp"
    show "batch_size hp dvd num_negatives hp"
    proof (rule ccontr)
      assume "\<not> batch_size hp dvd num_negatives hp"
      then obtain p q where "reachable hp (p, q)" and "num_negatives hp < p + batch_size hp"
        using reachable_overflow [OF d n b] by blast
      then show False using all by fastforce
    qed
  next
    assume dv: "batch_size hp dvd num_negatives hp"
    show "\<forall>p q. reachable hp (p, q) \<longrightarrow> p + batch_size hp \<le> num_negatives hp"
    proof (intro allI impI)
      fix p q assume r: "reachable hp (p, q)"
      have dp: "batch_size hp dvd p" using reachable_ptr_dvd [OF r dv] by simp
      have "p < num_negatives hp" using reachable_ptr_bound [OF r n] by simp
      then show "p + batch_size hp \<le> num_negatives hp" by (rule dvd_step_fits [OF dp dv])
    qed
  qed
qed

theorem enqueue_contiguous_no_wrap_witness:
  "0 < emb_dim small_hp \<and> 0 < num_negatives small_hp \<and> 0 < batch_size small_hp
   \<and> dequeue_and_enqueue small_hp None [[1, 2], [3, 4]] 2 [[9, 9, 9, 9], [8, 8, 8, 8]]
       = Inr (0, [[9, 9, 1, 3], [8, 8, 2, 4]])
   \<and> dequeue_and_enqueue small_hp None [[1, 2], [3, 4]] 3 [[9, 9, 9, 9], [8, 8, 8, 8]]
       = Inl RuntimeError
   \<and> batch_size small_hp dvd num_negatives small_hp"
proof -
  have h: "0 < emb_dim small_hp" "0 < num_negatives small_hp" "0 < batch_size small_hp"
    by (simp_all add: small_hp_def)
  note t = enqueue_contiguous_no_wrap [OF h]
  have q: "is_tensor2 (emb_dim small_hp) (num_negatives small_hp) [[9, 9, 9, 9], [8, 8, 8, 8]]"
    and k: "is_tensor2 (batch_size small_hp) (emb_dim small_hp) (gathered_keys None [[1, 2], [3, 4]])"
    by (simp_all add: small_hp_def is_tensor2_def gathered_keys_def)
  have "dequeue_and_enqueue small_hp None [[1, 2], [3, 4]] 2 [[9, 9, 9, 9], [8, 8, 8, 8]]
       = Inr (0, [[9, 9, 1, 3], [8, 8, 2, 4]])"
    using t [THEN conjunct1, rule_format, OF q _ k, of 2]
    by (simp add: small_hp_def gathered_keys_def numeral_2_eq_2 upt_rec)
  moreover have "dequeue_and_enqueue small_hp None [[1, 2], [3, 4]] 3 [[9, 9, 9, 9], [8, 8, 8, 8]]
       = Inl RuntimeError"
    using t [THEN conjunct1, rule_format, OF q _ k, of 3] by (simp add: small_hp_def)
  moreover have "batch_size small_hp dvd num_negatives small_hp"
    by (simp add: small_hp_def)
  ultimately show ?thesis using h by simp
qed

subsection \<open>Distributed batch shuffle\<close>

lemma length_concat_uniform:
  "list_all (\<lambda>x. length x = L) xs \<Longrightarrow> length (concat xs) = length xs * L"
  by (induction xs) simp_all

lemma slice_concat_uniform:
  "list_all (\<lambda>x. length x = L) xs \<Longrightarrow> r < length xs \<Longrightarrow>
   take L (drop (r * L) (concat xs)) = xs ! r"
proof (induction xs arbitrary: r)
  case Nil
  then show ?case by simp
next
  case (Cons x xs)
  show ?case
  proof (cases r)
    case 0
    then show ?thesis using Cons.prems by simp
  next
    case (Suc r')
    then show ?thesis using Cons by simp
  qed
qed

lemma concat_slices:
  "concat (map (\<lambda>r. take L (drop (r * L) p)) [0..<W]) = take (W * L) p"
proof (induction W)
  case 0
  then show ?case by simp
next
  case (Suc W)
  have "Suc W * L = W * L + L" by simp
  then have "take (Suc W * L) p = take (W * L) p @ take L (drop (W * L) p)"
    by (simp only: take_add)
  then show ?case using Suc by simp
qed

lemma perm_upt_length: "mset p = mset [0..<n] \<Longrightarrow> length p = n"
  by (metis length_upt size_mset diff_zero)

lemma perm_upt_set: "mset p = mset [0..<n] \<Longrightarrow> set p = {0..<n}"
  by (metis set_mset_mset set_upt)

lemma perm_upt_distinct: "mset p = mset [0..<n] \<Longrightarrow> distinct p"
  by (metis distinct_upt mset_eq_imp_distinct_iff)

lemma map_argsort:
  assumes "mset p = mset [0..<n]"
  shows "map (\<lambda>i. p ! i) (argsort p) = [0..<n]"
proof -
  let ?zs = "map (\<lambda>i. p ! i) (argsort p)"
  have "mset ?zs = mset (map (\<lambda>i. p ! i) [0..<length p])"
    by (simp add: argsort_def)
  then have "mset ?zs = mset [0..<n]" using assms by (simp add: map_nth)
  moreover have "sorted ?zs" by (simp add: argsort_def)
  ultimately have "sort [0..<n] = ?zs" by (rule properties_for_sort)
  then show ?thesis by simp
qed

lemma argsort_inverse:
  assumes p: "mset p = mset [0..<n]" and i: "i < n"
  shows "p ! (argsort p ! i) = i" and "argsort p ! (p ! i) = i"
proof -
  have la: "length (argsort p) = n" using perm_upt_length [OF p] by (simp add: argsort_def)
  have "map (\<lambda>i. p ! i) (argsort p) ! i = [0..<n] ! i" using map_argsort [OF p] by simp
  then show r1: "p ! (argsort p ! i) = i" using i la by simp
  have lp: "length p = n" by (rule perm_upt_length [OF p])
  have "p ! i \<in> set p" using i lp by simp
  then have j: "p ! i < n" using perm_upt_set [OF p] by simp
  have "map (\<lambda>i. p ! i) (argsort p) ! (p ! i) = [0..<n] ! (p ! i)" using map_argsort [OF p] by simp
  then have e: "p ! (argsort p ! (p ! i)) = p ! i" using j la by simp
  have "argsort p ! (p ! i) \<in> set (argsort p)" using j la by simp
  then have "argsort p ! (p ! i) < n" using lp by (simp add: argsort_def)
  then show "argsort p ! (p ! i) = i"
    using e perm_upt_distinct [OF p] i lp by (simp add: nth_eq_iff_index_eq)
qed

lemma view_row_slice:
  assumes "length idx = W * L" and "r < W"
  shows "view_row idx W r = Inr (take L (drop (r * L) idx))"
  using assms by (simp add: view_row_def)

lemma index_rows_ok:
  assumes "set idx \<subseteq> {0..<length X}"
  shows "index_rows X idx = Inr (map (\<lambda>i. X ! i) idx)"
  using assms by (auto simp: index_rows_def list_all_iff)

lemma length_slice:
  assumes "length p = W * L" and "k < W"
  shows "length (take L (drop (k * L) p)) = L"
proof -
  have "Suc k * L \<le> W * L" using assms(2) by (intro mult_le_mono1) simp
  then show ?thesis using assms(1) by simp
qed

lemma shuffle_result:
  fixes xs :: "'a list list"
  assumes L: "0 < L" and W: "length xs = W" and u: "list_all (\<lambda>x. length x = L) xs"
    and p: "mset idx_shuffle = mset [0..<W * L]" and k: "k < W"
  shows "batch_shuffle_ddp xs k idx_shuffle (xs ! k) =
           Inr (map (\<lambda>i. concat xs ! i) (take L (drop (k * L) idx_shuffle)), argsort idx_shuffle)"
proof -
  have lx: "length (xs ! k) = L" using u W k by (simp add: list_all_length)
  have g: "concat_all_gather xs k (xs ! k) = concat xs" by (simp add: concat_all_gather_def)
  have n: "length (concat xs) = W * L" using length_concat_uniform [OF u] W by simp
  have lp: "length idx_shuffle = W * L" by (rule perm_upt_length [OF p])
  have v: "view_row idx_shuffle W k = Inr (take L (drop (k * L) idx_shuffle))"
    by (rule view_row_slice [OF lp k])
  have "set (take L (drop (k * L) idx_shuffle)) \<subseteq> set idx_shuffle"
    by (meson set_take_subset set_drop_subset subset_trans)
  then have "set (take L (drop (k * L) idx_shuffle)) \<subseteq> {0..<length (concat xs)}"
    using perm_upt_set [OF p] n by simp
  then have ix: "index_rows (concat xs) (take L (drop (k * L) idx_shuffle))
           = Inr (map (\<lambda>i. concat xs ! i) (take L (drop (k * L) idx_shuffle)))"
    by (rule index_rows_ok)
  show ?thesis using L by (simp add: batch_shuffle_ddp_def Let_def lx g n v ix)
qed

lemma unshuffle_result:
  fixes xs :: "'a list list"
  assumes L: "0 < L" and W: "length xs = W" and u: "list_all (\<lambda>x. length x = L) xs"
    and p: "mset idx_shuffle = mset [0..<W * L]" and r: "r < W"
    and ys: "ys = map (\<lambda>k. map (\<lambda>i. concat xs ! i) (take L (drop (k * L) idx_shuffle))) [0..<W]"
  shows "batch_unshuffle_ddp ys r (ys ! r) (argsort idx_shuffle) = Inr (xs ! r)"
proof -
  let ?X = "concat xs"
  have n: "length ?X = W * L" using length_concat_uniform [OF u] W by simp
  have lp: "length idx_shuffle = W * L" by (rule perm_upt_length [OF p])
  have ly: "length (ys ! r) = L" using r ys length_slice [OF lp r] by simp
  have "concat ys = map (\<lambda>i. ?X ! i) (concat (map (\<lambda>k. take L (drop (k * L) idx_shuffle)) [0..<W]))"
    unfolding ys by (simp add: map_concat comp_def)
  then have cy: "concat ys = map (\<lambda>i. ?X ! i) idx_shuffle"
    using lp by (simp add: concat_slices)
  have g: "concat_all_gather ys r (ys ! r) = map (\<lambda>i. ?X ! i) idx_shuffle"
    by (simp add: concat_all_gather_def cy)
  have la: "length (argsort idx_shuffle) = W * L" using lp by (simp add: argsort_def)
  have v: "view_row (argsort idx_shuffle) W r = Inr (take L (drop (r * L) (argsort idx_shuffle)))"
    by (rule view_row_slice [OF la r])
  have sa: "set (argsort idx_shuffle) = {0..<W * L}" using lp by (simp add: argsort_def)
  have "set (take L (drop (r * L) (argsort idx_shuffle))) \<subseteq> set (argsort idx_shuffle)"
    by (meson set_take_subset set_drop_subset subset_trans)
  then have "set (take L (drop (r * L) (argsort idx_shuffle)))
               \<subseteq> {0..<length (map (\<lambda>i. ?X ! i) idx_shuffle)}"
    using sa lp by simp
  then have ix: "index_rows (map (\<lambda>i. ?X ! i) idx_shuffle) (take L (drop (r * L) (argsort idx_shuffle)))
      = Inr (map (\<lambda>i. map (\<lambda>i. ?X ! i) idx_shuffle ! i) (take L (drop (r * L) (argsort idx_shuffle))))"
    by (rule index_rows_ok)
  have "map (\<lambda>i. map (\<lambda>i. ?X ! i) idx_shuffle ! i) (argsort idx_shuffle)
          = map (\<lambda>i. ?X ! (idx_shuffle ! i)) (argsort idx_shuffle)"
    using sa lp by (intro map_cong) simp_all
  also have "\<dots> = map (\<lambda>j. ?X ! j) (map (\<lambda>i. idx_shuffle ! i) (argsort idx_shuffle))"
    by (simp add: comp_def)
  also have "\<dots> = map (\<lambda>j. ?X ! j) [0..<length ?X]"
    using map_argsort [OF p] n by simp
  also have "\<dots> = ?X" by (rule map_nth)
  finally have full: "map (\<lambda>i. map (\<lambda>i. ?X ! i) idx_shuffle ! i) (argsort idx_shuffle) = ?X" .
  have "map (\<lambda>i. map (\<lambda>i. ?X ! i) idx_shuffle ! i) (take L (drop (r * L) (argsort idx_shuffle)))
          = take L (drop (r * L) (map (\<lambda>i. map (\<lambda>i. ?X ! i) idx_shuffle ! i) (argsort idx_shuffle)))"
    by (simp only: take_map drop_map)
  also have "\<dots> = xs ! r"
    using slice_concat_uniform [OF u] r W by (simp only: full)
  finally have res: "map (\<lambda>i. map (\<lambda>i. ?X ! i) idx_shuffle ! i) (take L (drop (r * L) (argsort idx_shuffle)))
          = xs ! r" .
  show ?thesis
    using L by (simp add: batch_unshuffle_ddp_def Let_def ly g lp v ix res)
qed

text \<open>
  C7. In a group of \<open>W\<close> workers with local batches of size \<open>L > 0\<close> and a
  broadcast index vector that is a permutation of \<open>0, ..., W * L - 1\<close>, every
  worker's shuffle returns; and when every worker hands its shuffled batch on
  unchanged (an identity encoder), the unshuffle on any worker \<open>r\<close> returns that
  worker's original batch. The permutation and its argsort are inverse to each
  other.
\<close>

theorem shuffle_unshuffle_roundtrip:
  fixes xs :: "'a list list"
  assumes L: "0 < L" and W: "length xs = W" and u: "list_all (\<lambda>x. length x = L) xs"
    and p: "mset idx_shuffle = mset [0..<W * L]" and r: "r < W"
  shows "\<exists>ys. length ys = W
     \<and> (\<forall>k<W. batch_shuffle_ddp xs k idx_shuffle (xs ! k) = Inr (ys ! k, argsort idx_shuffle))
     \<and> batch_unshuffle_ddp ys r (ys ! r) (argsort idx_shuffle) = Inr (xs ! r)
     \<and> (\<forall>i<W * L. idx_shuffle ! (argsort idx_shuffle ! i) = i
                  \<and> argsort idx_shuffle ! (idx_shuffle ! i) = i)"
proof -
  define ys where "ys = map (\<lambda>k. map (\<lambda>i. concat xs ! i) (take L (drop (k * L) idx_shuffle))) [0..<W]"
  have "length ys = W" by (simp add: ys_def)
  moreover have "\<forall>k<W. batch_shuffle_ddp xs k idx_shuffle (xs ! k) = Inr (ys ! k, argsort idx_shuffle)"
    using shuffle_result [OF L W u p] by (simp add: ys_def)
  moreover have "batch_unshuffle_ddp ys r (ys ! r) (argsort idx_shuffle) = Inr (xs ! r)"
    using unshuffle_result [OF L W u p r ys_def] .
  moreover have "\<forall>i<W * L. idx_shuffle ! (argsort idx_shuffle ! i) = i
                  \<and> argsort idx_shuffle ! (idx_shuffle ! i) = i"
    using argsort_inverse [OF p] by simp
  ultimately show ?thesis by blast
qed

theorem shuffle_unshuffle_roundtrip_witness:
  "batch_shuffle_ddp [[10, 11], [12, 13]] 0 [2, 0, 3, 1] [10, 11] = Inr ([12, 10 :: nat], [1, 3, 0, 2])
   \<and> batch_shuffle_ddp [[10, 11], [12, 13]] 1 [2, 0, 3, 1] [12, 13] = Inr ([13, 11 :: nat], [1, 3, 0, 2])
   \<and> batch_unshuffle_ddp [[12, 10], [13, 11]] 1 [13, 11] [1, 3, 0, 2] = Inr [12, 13 :: nat]"
proof -
  let ?xs = "[[10, 11], [12, 13]] :: nat list list"
  let ?p = "[2, 0, 3, 1] :: nat list"
  have h: "(0::nat) < 2" "length ?xs = 2" "list_all (\<lambda>x. length x = 2) ?xs"
    "mset ?p = mset [0..<2 * 2]" "(1::nat) < 2"
    by (simp_all add: upt_rec eval_nat_numeral)
  from shuffle_unshuffle_roundtrip [OF h] obtain ys where
    ly: "length ys = 2"
    and sh: "\<forall>k<2. batch_shuffle_ddp ?xs k ?p (?xs ! k) = Inr (ys ! k, argsort ?p)"
    and un: "batch_unshuffle_ddp ys 1 (ys ! 1) (argsort ?p) = Inr (?xs ! 1)"
    by blast
  have e0: "batch_shuffle_ddp ?xs 0 ?p [10, 11] = Inr ([12, 10], [1, 3, 0, 2])"
    by code_simp
  have e1: "batch_shuffle_ddp ?xs 1 ?p [12, 13] = Inr ([13, 11], [1, 3, 0, 2])"
    by code_simp
  have y0: "ys ! 0 = [12, 10]" and a: "argsort ?p = [1, 3, 0, 2]"
    using sh [rule_format, of 0] e0 by simp_all
  have y1: "ys ! 1 = [13, 11]"
    using sh [rule_format, of 1] e1 by simp
  have "ys = [[12, 10], [13, 11]]"
    using ly y0 y1 by (auto simp: list_eq_iff_nth_eq less_Suc_eq numeral_2_eq_2)
  then have "batch_unshuffle_ddp [[12, 10], [13, 11]] 1 [13, 11] [1, 3, 0, 2] = Inr [12, 13 :: nat]"
    using un a by simp
  then show ?thesis using e0 e1 by simp
qed

subsection \<open>Forward pass\<close>

lemma length_einsum_nc_ck_nk:
  "einsum_nc_ck_nk query neg = Inr l_neg \<Longrightarrow> length l_neg = length query"
  by (auto simp: einsum_nc_ck_nk_def split: if_splits)

lemma length_einsum_nc_njc_nc:
  "einsum_nc_njc_nc query neg = Inr l_neg \<Longrightarrow> length l_neg = length query"
  by (auto simp: einsum_nc_njc_nc_def split: if_splits)

lemma einsum_nc_nc_n_Inr:
  assumes "einsum_nc_nc_n query key = Inr l_pos"
  shows "length key = length query" and "l_pos = map (\<lambda>(q, k). [dot q k]) (zip query key)"
  using assms by (auto simp: einsum_nc_nc_n_def same_shape_def split: if_splits)

lemma forward_Inr:
  assumes "forward hp ext s env img_q img_k queue_arg = Inr (logits, labels, query, key)"
  obtains l_neg where "length l_neg = length query" and "length key = length query"
    and "query = normalize_rows (net ext (encoder_q s) img_q)"
    and "key_features ext s env img_k = Inr key"
    and "logits = map (\<lambda>(p, n). map (\<lambda>x. x / softmax_temperature hp) (p @ n))
                    (zip (map (\<lambda>(q, k). [dot q k]) (zip query key)) l_neg)"
    and "labels = replicate (length query) 0"
    and "(if use_knn hp
          then (case knn_approx hp s query of Inl e \<Rightarrow> Inl e
                | Inr neg_examples \<Rightarrow> einsum_nc_njc_nc query neg_examples)
          else einsum_nc_ck_nk query queue_arg) = Inr l_neg"
proof -
  let ?query = "normalize_rows (net ext (encoder_q s) img_q)"
  from assms obtain key0 where k: "key_features ext s env img_k = Inr key0"
    by (auto simp: forward_def Let_def split: sum.splits)
  from assms k obtain l_pos where p: "einsum_nc_nc_n ?query key0 = Inr l_pos"
    by (auto simp: forward_def Let_def split: sum.splits)
  from assms k p obtain l_neg where
    n: "(if use_knn hp
          then (case knn_approx hp s ?query of Inl e \<Rightarrow> Inl e
                | Inr neg_examples \<Rightarrow> einsum_nc_njc_nc ?query neg_examples)
          else einsum_nc_ck_nk ?query queue_arg) = Inr l_neg"
    by (simp add: forward_def Let_def split: sum.splits)
  from assms k p n have r: "logits = map (map (\<lambda>x. x / softmax_temperature hp)) (map (\<lambda>(p, n). p @ n) (zip l_pos l_neg))"
    "labels = replicate (length (map (\<lambda>(p, n). p @ n) (zip l_pos l_neg))) 0" "query = ?query" "key = key0"
    by (simp_all add: forward_def Let_def)
  have ln: "length l_neg = length ?query"
    using n length_einsum_nc_ck_nk length_einsum_nc_njc_nc
    by (auto split: if_splits sum.splits)
  have lp: "length key0 = length ?query" "l_pos = map (\<lambda>(q, k). [dot q k]) (zip ?query key0)"
    using einsum_nc_nc_n_Inr [OF p] by simp_all
  show ?thesis
  proof (rule that [of l_neg])
    show "length l_neg = length query" using ln r by simp
    show "length key = length query" using lp r by simp
    show "query = normalize_rows (net ext (encoder_q s) img_q)" using r by simp
    show "key_features ext s env img_k = Inr key" using k r by simp
    show "logits = map (\<lambda>(p, n). map (\<lambda>x. x / softmax_temperature hp) (p @ n))
                    (zip (map (\<lambda>(q, k). [dot q k]) (zip query key)) l_neg)"
      using r lp by (simp add: case_prod_unfold comp_def)
    show "labels = replicate (length query) 0" using r lp ln by simp
    show "(if use_knn hp
          then (case knn_approx hp s query of Inl e \<Rightarrow> Inl e
                | Inr neg_examples \<Rightarrow> einsum_nc_njc_nc query neg_examples)
          else einsum_nc_ck_nk query queue_arg) = Inr l_neg" unfolding r(3) by (rule n)
  qed
qed

lemma is_tensor2_normalize: "is_tensor2 b d t \<Longrightarrow> is_tensor2 b d (normalize_rows t)"
  by (simp add: is_tensor2_def normalize_rows_def list_all_length)

lemma forward_standard_returns:
  assumes "\<not> use_knn hp"
    and q: "is_tensor2 b d (net ext (encoder_q s) img_q)"
    and k: "is_tensor2 b d (net ext (encoder_k s) img_k)"
    and n: "is_tensor2 d n queue_arg"
  shows "\<exists>r. forward hp ext s None img_q img_k queue_arg = Inr r"
proof -
  let ?query = "normalize_rows (net ext (encoder_q s) img_q)"
  let ?key = "normalize_rows (net ext (encoder_k s) img_k)"
  have q': "is_tensor2 b d ?query" and k': "is_tensor2 b d ?key"
    using q k by (simp_all add: is_tensor2_normalize)
  have "same_shape ?query ?key"
    using q' k' by (auto simp: same_shape_def is_tensor2_def list_all_length)
  then obtain l_pos where p: "einsum_nc_nc_n ?query ?key = Inr l_pos"
    by (simp add: einsum_nc_nc_n_def)
  have "list_all (\<lambda>row. length row = ncols queue_arg) queue_arg"
    using n by (cases queue_arg) (auto simp: is_tensor2_def ncols_def list_all_iff)
  moreover have "list_all (\<lambda>q. length q = length queue_arg) ?query"
    using q' n by (simp add: is_tensor2_def)
  ultimately obtain l_neg where "einsum_nc_ck_nk ?query queue_arg = Inr l_neg"
    by (simp add: einsum_nc_ck_nk_def)
  then show ?thesis using p assms(1) by (simp add: forward_def key_features_def Let_def)
qed

lemma einsum_nc_ck_nk_Inr:
  assumes "einsum_nc_ck_nk query neg = Inr l_neg" and "i < length query"
  shows "length (l_neg ! i) = ncols neg"
    and "k < ncols neg \<Longrightarrow> l_neg ! i ! k = (\<Sum>c\<leftarrow>[0..<length neg]. query ! i ! c * neg ! c ! k)"
  using assms by (auto simp: einsum_nc_ck_nk_def split: if_splits)

lemma key_features_None:
  "key_features ext s None img_k = Inr (normalize_rows (net ext (encoder_k s) img_k))"
  by (simp add: key_features_def)

text \<open>
  C6. With a softmax temperature other than zero, whenever \<open>forward\<close> returns:
  the queries are the normalised output of the query encoder and the keys are
  the key features of the key images (outside distributed training, the
  normalised output of the key encoder); the target vector has one entry per
  query and every entry is 0; the logits have one row per query; column 0 of row
  \<open>i\<close> is the dot product of query \<open>i\<close> with key \<open>i\<close>, divided by the temperature;
  and every row is that dot product followed by the row of the negative block,
  all divided by the temperature. On the queue path the negative block is the
  product of the queries with the queue, so that entry \<open>k + 1\<close> of row \<open>i\<close> is the
  dot product of query \<open>i\<close> with queue column \<open>k\<close> over the temperature. On the
  queue path outside distributed training, \<open>forward\<close> does return when the
  encoders produce equally shaped batches as wide as the queue is high.
\<close>

theorem forward_positive_is_column_0:
  assumes T: "softmax_temperature hp \<noteq> 0"
  shows "(\<forall>logits labels query key.
            forward hp ext s env img_q img_k queue_arg = Inr (logits, labels, query, key) \<longrightarrow>
            query = normalize_rows (net ext (encoder_q s) img_q)
            \<and> key_features ext s env img_k = Inr key
            \<and> (env = None \<longrightarrow> key = normalize_rows (net ext (encoder_k s) img_k))
            \<and> labels = replicate (length query) 0
            \<and> length logits = length query \<and> length key = length query
            \<and> (\<forall>i<length query. logits ! i \<noteq> []
                   \<and> logits ! i ! 0 = dot (query ! i) (key ! i) / softmax_temperature hp)
            \<and> (\<exists>l_neg. (if use_knn hp
                          then (case knn_approx hp s query of Inl e \<Rightarrow> Inl e
                                | Inr neg_examples \<Rightarrow> einsum_nc_njc_nc query neg_examples)
                          else einsum_nc_ck_nk query queue_arg) = Inr l_neg
                   \<and> length l_neg = length query
                   \<and> (\<forall>i<length query.
                         logits ! i = map (\<lambda>x. x / softmax_temperature hp)
                                        (dot (query ! i) (key ! i) # l_neg ! i)))
            \<and> (\<not> use_knn hp \<longrightarrow>
                 (\<forall>i<length query. length (logits ! i) = Suc (ncols queue_arg)
                    \<and> (\<forall>k<ncols queue_arg.
                          logits ! i ! Suc k
                            = (\<Sum>c\<leftarrow>[0..<length queue_arg]. query ! i ! c * queue_arg ! c ! k)
                              / softmax_temperature hp))))
       \<and> (\<forall>b d n. \<not> use_knn hp \<longrightarrow> env = None \<longrightarrow>
            is_tensor2 b d (net ext (encoder_q s) img_q) \<longrightarrow>
            is_tensor2 b d (net ext (encoder_k s) img_k) \<longrightarrow>
            is_tensor2 d n queue_arg \<longrightarrow>
            (\<exists>r. forward hp ext s env img_q img_k queue_arg = Inr r))"
proof -
  let ?T = "softmax_temperature hp"
  have returned: "\<forall>logits labels query key.
            forward hp ext s env img_q img_k queue_arg = Inr (logits, labels, query, key) \<longrightarrow>
            query = normalize_rows (net ext (encoder_q s) img_q)
            \<and> key_features ext s env img_k = Inr key
            \<and> (env = None \<longrightarrow> key = normalize_rows (net ext (encoder_k s) img_k))
            \<and> labels = replicate (length query) 0
            \<and> length logits = length query \<and> length key = length query
            \<and> (\<forall>i<length query. logits ! i \<noteq> []
                   \<and> logits ! i ! 0 = dot (query ! i) (key ! i) / ?T)
            \<and> (\<exists>l_neg. (if use_knn hp
                          then (case knn_approx hp s query of Inl e \<Rightarrow> Inl e
                                | Inr neg_examples \<Rightarrow> einsum_nc_njc_nc query neg_examples)
                          else einsum_nc_ck_nk query queue_arg) = Inr l_neg
                   \<and> length l_neg = length query
                   \<and> (\<forall>i<length query.
                         logits ! i = map (\<lambda>x. x / ?T) (dot (query ! i) (key ! i) # l_neg ! i)))
            \<and> (\<not> use_knn hp \<longrightarrow>
                 (\<forall>i<length query. length (logits ! i) = Suc (ncols queue_arg)
                    \<and> (\<forall>k<ncols queue_arg.
                          logits ! i ! Suc k
                            = (\<Sum>c\<leftarrow>[0..<length queue_arg]. query ! i ! c * queue_arg ! c ! k) / ?T)))"
  proof (intro allI impI)
    fix logits labels query key
    assume f: "forward hp ext s env img_q img_k queue_arg = Inr (logits, labels, query, key)"
    from f obtain l_neg where ln: "length l_neg = length query" and lk: "length key = length query"
      and qd: "query = normalize_rows (net ext (encoder_q s) img_q)"
      and kf: "key_features ext s env img_k = Inr key"
      and lg: "logits = map (\<lambda>(p, n). map (\<lambda>x. x / ?T) (p @ n))
                    (zip (map (\<lambda>(q, k). [dot q k]) (zip query key)) l_neg)"
      and lb: "labels = replicate (length query) 0"
      and ng: "(if use_knn hp
                then (case knn_approx hp s query of Inl e \<Rightarrow> Inl e
                      | Inr neg_examples \<Rightarrow> einsum_nc_njc_nc query neg_examples)
                else einsum_nc_ck_nk query queue_arg) = Inr l_neg"
      by (rule forward_Inr)
    have c3: "env = None \<longrightarrow> key = normalize_rows (net ext (encoder_k s) img_k)"
      using kf by (auto simp: key_features_None)
    have c5: "length logits = length query" using ln lk by (simp add: lg)
    have rows: "\<forall>i<length query. logits ! i = map (\<lambda>x. x / ?T) (dot (query ! i) (key ! i) # l_neg ! i)"
      using ln lk by (simp add: lg)
    have c7: "\<forall>i<length query. logits ! i \<noteq> []
                   \<and> logits ! i ! 0 = dot (query ! i) (key ! i) / ?T"
      using rows by simp
    have c8: "\<exists>l_neg. (if use_knn hp
                          then (case knn_approx hp s query of Inl e \<Rightarrow> Inl e
                                | Inr neg_examples \<Rightarrow> einsum_nc_njc_nc query neg_examples)
                          else einsum_nc_ck_nk query queue_arg) = Inr l_neg
                   \<and> length l_neg = length query
                   \<and> (\<forall>i<length query.
                         logits ! i = map (\<lambda>x. x / ?T) (dot (query ! i) (key ! i) # l_neg ! i))"
      using ng ln rows by blast
    have c9: "\<not> use_knn hp \<longrightarrow>
                 (\<forall>i<length query. length (logits ! i) = Suc (ncols queue_arg)
                    \<and> (\<forall>k<ncols queue_arg.
                          logits ! i ! Suc k
                            = (\<Sum>c\<leftarrow>[0..<length queue_arg]. query ! i ! c * queue_arg ! c ! k) / ?T))"
    proof (intro impI allI)
      fix i assume nk: "\<not> use_knn hp" and i: "i < length query"
      have e: "einsum_nc_ck_nk query queue_arg = Inr l_neg" using ng nk by simp
      have r: "logits ! i = map (\<lambda>x. x / ?T) (dot (query ! i) (key ! i) # l_neg ! i)"
        using rows i by simp
      have l: "length (l_neg ! i) = ncols queue_arg" by (rule einsum_nc_ck_nk_Inr(1) [OF e i])
      show "length (logits ! i) = Suc (ncols queue_arg)
              \<and> (\<forall>k<ncols queue_arg.
                    logits ! i ! Suc k
                      = (\<Sum>c\<leftarrow>[0..<length queue_arg]. query ! i ! c * queue_arg ! c ! k) / ?T)"
        using l einsum_nc_ck_nk_Inr(2) [OF e i] by (simp add: r)
    qed
    show "query = normalize_rows (net ext (encoder_q s) img_q)
            \<and> key_features ext s env img_k = Inr key
            \<and> (env = None \<longrightarrow> key = normalize_rows (net ext (encoder_k s) img_k))
            \<and> labels = replicate (length query) 0
            \<and> length logits = length query \<and> length key = length query
            \<and> (\<forall>i<length query. logits ! i \<noteq> []
                   \<and> logits ! i ! 0 = dot (query ! i) (key ! i) / ?T)
            \<and> (\<exists>l_neg. (if use_knn hp
                          then (case knn_approx hp s query of Inl e \<Rightarrow> Inl e
                                | Inr neg_examples \<Rightarrow> einsum_nc_njc_nc query neg_examples)
                          else einsum_nc_ck_nk query queue_arg) = Inr l_neg
                   \<and> length l_neg = length query
                   \<and> (\<forall>i<length query.
                         logits ! i = map (\<lambda>x. x / ?T) (dot (query ! i) (key ! i) # l_neg ! i)))
            \<and> (\<not> use_knn hp \<longrightarrow>
                 (\<forall>i<length query. length (logits ! i) = Suc (ncols queue_arg)
                    \<and> (\<forall>k<ncols queue_arg.
                          logits ! i ! Suc k
                            = (\<Sum>c\<leftarrow>[0..<length queue_arg]. query ! i ! c * queue_arg ! c ! k) / ?T)))"
      by (intro conjI qd kf c3 lb c5 lk c7 c8 c9)
  qed
  have total: "\<forall>b d n. \<not> use_knn hp \<longrightarrow> env = None \<longrightarrow>
            is_tensor2 b d (net ext (encoder_q s) img_q) \<longrightarrow>
            is_tensor2 b d (net ext (encoder_k s) img_k) \<longrightarrow>
            is_tensor2 d n queue_arg \<longrightarrow>
            (\<exists>r. forward hp ext s env img_q img_k queue_arg = Inr r)"
    using forward_standard_returns by blast
  show ?thesis by (intro conjI returned total)
qed

subsection \<open>KNN negative mining\<close>

lemma metric_distance_None_iff:
  "metric_distance m = None \<longleftrightarrow> m \<notin> set supported_metrics"
  by (simp add: metric_distance_def supported_metrics_def)

lemma transpose_t_shape:
  assumes "is_tensor2 d n q" and "0 < d"
  shows "is_tensor2 n d (transpose_t q)"
  using assms ncols_tensor2 [OF assms]
  by (simp add: transpose_t_def is_tensor2_def list_all_length)

lemma length_argKmin: "length (argKmin K ds) = K"
  by (simp add: argKmin_def argsort_def)

lemma argKmin_in_range:
  assumes "ds \<noteq> []" and "j \<in> set (argKmin K ds)"
  shows "j < length ds"
proof -
  have "set (take K (argsort ds)) \<subseteq> set (argsort ds)" by (rule set_take_subset)
  then have "set (take K (argsort ds)) \<subseteq> {0..<length ds}" by (simp add: argsort_def)
  then show ?thesis using assms by (auto simp: argKmin_def)
qed

lemma argKmin_nearest:
  assumes K: "K \<le> length ds"
  shows "distinct (argKmin K ds)"
    and "sorted (map (\<lambda>j. ds ! j) (argKmin K ds))"
    and "\<forall>m<length ds. m \<notin> set (argKmin K ds) \<longrightarrow> (\<forall>j\<in>set (argKmin K ds). ds ! j \<le> ds ! m)"
proof -
  let ?a = "argsort ds"
  have ak: "argKmin K ds = take K ?a" using K by (simp add: argKmin_def)
  have d: "distinct ?a" and st: "set ?a = {0..<length ds}"
    and so: "sorted (map (\<lambda>j. ds ! j) ?a)"
    by (simp_all add: argsort_def)
  show "distinct (argKmin K ds)" using d by (simp add: ak)
  have split: "map (\<lambda>j. ds ! j) ?a
                 = map (\<lambda>j. ds ! j) (take K ?a) @ map (\<lambda>j. ds ! j) (drop K ?a)"
    by (simp flip: map_append)
  have so': "sorted (map (\<lambda>j. ds ! j) (take K ?a) @ map (\<lambda>j. ds ! j) (drop K ?a))"
    using so split by simp
  then show "sorted (map (\<lambda>j. ds ! j) (argKmin K ds))"
    by (simp add: ak sorted_append)
  show "\<forall>m<length ds. m \<notin> set (argKmin K ds) \<longrightarrow> (\<forall>j\<in>set (argKmin K ds). ds ! j \<le> ds ! m)"
  proof (intro allI impI ballI)
    fix m j assume m: "m < length ds" and nm: "m \<notin> set (argKmin K ds)"
      and j: "j \<in> set (argKmin K ds)"
    have "m \<in> set ?a" using m st by simp
    then have "m \<in> set (take K ?a) \<union> set (drop K ?a)"
      by (metis append_take_drop_id set_append)
    then have "m \<in> set (drop K ?a)" using nm by (simp add: ak)
    then show "ds ! j \<le> ds ! m" using so' j by (auto simp: ak sorted_append)
  qed
qed

lemma gather_rows_ok:
  assumes "\<forall>idx\<in>set index. \<forall>j\<in>set idx. j < length t"
  shows "gather_rows t index = Inr (map (\<lambda>idx. map (\<lambda>j. t ! j) idx) index)"
  using assms by (simp add: gather_rows_def list_all_iff)

lemma knn_approx_result:
  assumes m: "metric_distance (metric hp) = Some D_ij"
    and d: "0 < emb_dim hp" and n: "0 < num_negatives hp"
    and q: "is_tensor2 (emb_dim hp) (num_negatives hp) (queue s)"
    and x: "is_tensor2 b (emb_dim hp) query"
    and fin: "\<forall>x\<in>set query. \<forall>y\<in>set (transpose_t (queue s)). D_ij x y \<noteq> None"
  shows "knn_approx hp s query
           = Inr (map (\<lambda>x. map (\<lambda>j. transpose_t (queue s) ! j)
                              (argKmin (topk hp) (map (\<lambda>y. the (D_ij x y)) (transpose_t (queue s)))))
                    query)"
proof -
  let ?qT = "transpose_t (queue s)"
  have t: "is_tensor2 (num_negatives hp) (emb_dim hp) ?qT" by (rule transpose_t_shape [OF q d])
  have lt: "length ?qT = num_negatives hp" using t by (simp add: is_tensor2_def)
  have ok: "list_all (\<lambda>x. x \<noteq> [] \<and> length x = length (queue s)) query"
    using x q d by (auto simp: is_tensor2_def list_all_iff)
  have fin': "list_all (list_all (\<lambda>d. d \<noteq> None)) (map (\<lambda>x. map (\<lambda>y. D_ij x y) ?qT) query)"
    using fin by (simp add: list_all_iff)
  have rng: "\<forall>idx\<in>set (map (\<lambda>ds. argKmin (topk hp) (map the ds)) (map (\<lambda>x. map (\<lambda>y. D_ij x y) ?qT) query)).
               \<forall>j\<in>set idx. j < length ?qT"
  proof (intro ballI)
    fix idx j
    assume "idx \<in> set (map (\<lambda>ds. argKmin (topk hp) (map the ds)) (map (\<lambda>x. map (\<lambda>y. D_ij x y) ?qT) query))"
      and j: "j \<in> set idx"
    then obtain x where idx: "idx = argKmin (topk hp) (map the (map (\<lambda>y. D_ij x y) ?qT))"
      by auto
    have "map the (map (\<lambda>y. D_ij x y) ?qT) \<noteq> []" using lt n by auto
    then have "j < length (map the (map (\<lambda>y. D_ij x y) ?qT))"
      using j unfolding idx by (rule argKmin_in_range)
    then show "j < length ?qT" by simp
  qed
  show ?thesis
    using m ok fin' gather_rows_ok [OF rng]
    by (simp add: knn_approx_def Let_def comp_def)
qed

lemma knn_row_props:
  fixes D_ij :: "vec \<Rightarrow> vec \<Rightarrow> real option" and qT :: tensor2
  assumes lt: "length qT = N" and n: "0 < N"
    and idx: "idx = argKmin K (map (\<lambda>y. the (D_ij x y)) qT)"
  shows "length idx = K" and "\<forall>j\<in>set idx. j < N"
    and "K \<le> N \<longrightarrow> distinct idx
           \<and> sorted (map (\<lambda>j. the (D_ij x (qT ! j))) idx)
           \<and> (\<forall>m<N. m \<notin> set idx \<longrightarrow>
                 (\<forall>j\<in>set idx. the (D_ij x (qT ! j)) \<le> the (D_ij x (qT ! m))))"
    and "N \<le> K \<longrightarrow> drop N idx = replicate (K - N) 0"
proof -
  let ?ds = "map (\<lambda>y. the (D_ij x y)) qT"
  have ld: "length ?ds = N" using lt by simp
  have ne: "?ds \<noteq> []" using lt n by auto
  show "length idx = K" by (simp add: idx length_argKmin)
  show rng: "\<forall>j\<in>set idx. j < N"
    using argKmin_in_range [OF ne] ld unfolding idx by auto
  have nth: "\<And>j. j < N \<Longrightarrow> ?ds ! j = the (D_ij x (qT ! j))" using lt by simp
  show "K \<le> N \<longrightarrow> distinct idx
           \<and> sorted (map (\<lambda>j. the (D_ij x (qT ! j))) idx)
           \<and> (\<forall>m<N. m \<notin> set idx \<longrightarrow>
                 (\<forall>j\<in>set idx. the (D_ij x (qT ! j)) \<le> the (D_ij x (qT ! m))))"
  proof (intro impI conjI)
    assume K: "K \<le> N"
    then have K': "K \<le> length ?ds" using ld by simp
    show "distinct idx" unfolding idx by (rule argKmin_nearest(1) [OF K'])
    have "sorted (map (\<lambda>j. ?ds ! j) idx)" unfolding idx by (rule argKmin_nearest(2) [OF K'])
    moreover have "map (\<lambda>j. ?ds ! j) idx = map (\<lambda>j. the (D_ij x (qT ! j))) idx"
      using rng nth by (intro map_cong) auto
    ultimately show "sorted (map (\<lambda>j. the (D_ij x (qT ! j))) idx)" by simp
    show "\<forall>m<N. m \<notin> set idx \<longrightarrow>
                 (\<forall>j\<in>set idx. the (D_ij x (qT ! j)) \<le> the (D_ij x (qT ! m)))"
    proof (intro allI impI ballI)
      fix m j assume m: "m < N" and nm: "m \<notin> set idx" and j: "j \<in> set idx"
      have "?ds ! j \<le> ?ds ! m"
        using argKmin_nearest(3) [OF K'] m nm j ld unfolding idx by auto
      then show "the (D_ij x (qT ! j)) \<le> the (D_ij x (qT ! m))"
        using nth [OF m] nth [of j] rng j by simp
    qed
  qed
  show "N \<le> K \<longrightarrow> drop N idx = replicate (K - N) 0"
    using ld by (simp add: idx argKmin_def argsort_def)
qed

text \<open>
  C9. For a metric name outside the five recognised ones \<open>knn_approx\<close> raises
  (the distance is never assigned). Each of the five names selects its distance:
  the squared Euclidean distance, the Manhattan distance, the negated scalar
  product, the squared Euclidean distance over the product of the first
  coordinates, and the sum of the last two. For a positive embedding width, a
  queue that is not empty, queries as wide as the queue is high and distances
  that are all finite, the call returns, for \<open>b\<close> queries, \<open>b\<close> blocks of \<open>topk\<close>
  vectors of width \<open>emb_dim\<close>; block \<open>i\<close> holds the queue entries at the indices
  \<open>argKmin\<close> gives for the distances of query \<open>i\<close>. With \<open>topk\<close> at most the
  capacity these indices are distinct, ordered by increasing distance, and no
  entry left out is nearer than one taken; beyond the capacity they are padded
  with index 0.
\<close>

theorem knn_approx_metric_dispatch:
  "(metric hp \<notin> set supported_metrics \<longrightarrow> knn_approx hp s query = Inl UnboundLocalError)
   \<and> (metric hp \<in> set supported_metrics \<longrightarrow>
        (\<exists>D_ij. metric_distance (metric hp) = Some D_ij
           \<and> (metric hp = ''euclidean'' \<longrightarrow>
                 D_ij = (\<lambda>x y. Some (\<Sum>(a, b)\<leftarrow>zip x y. (a - b)\<^sup>2)))
           \<and> (metric hp = ''manhattan'' \<longrightarrow>
                 D_ij = (\<lambda>x y. Some (\<Sum>(a, b)\<leftarrow>zip x y. \<bar>a - b\<bar>)))
           \<and> (metric hp = ''angular'' \<longrightarrow>
                 D_ij = (\<lambda>x y. Some (- (\<Sum>(a, b)\<leftarrow>zip x y. a * b))))
           \<and> (metric hp = ''hyperbolic'' \<longrightarrow>
                 (\<forall>x y. x ! 0 * y ! 0 \<noteq> 0 \<longrightarrow>
                    D_ij x y = Some ((\<Sum>(a, b)\<leftarrow>zip x y. (a - b)\<^sup>2) / (x ! 0 * y ! 0))))
           \<and> (metric hp = ''ang+hyper'' \<longrightarrow>
                 (\<forall>x y. x ! 0 * y ! 0 \<noteq> 0 \<longrightarrow>
                    D_ij x y = Some (- (\<Sum>(a, b)\<leftarrow>zip x y. a * b)
                                     + (\<Sum>(a, b)\<leftarrow>zip x y. (a - b)\<^sup>2) / (x ! 0 * y ! 0))))
           \<and> (\<forall>b. 0 < emb_dim hp \<longrightarrow> 0 < num_negatives hp \<longrightarrow>
                 is_tensor2 (emb_dim hp) (num_negatives hp) (queue s) \<longrightarrow>
                 is_tensor2 b (emb_dim hp) query \<longrightarrow>
                 (\<forall>x\<in>set query. \<forall>y\<in>set (transpose_t (queue s)). D_ij x y \<noteq> None) \<longrightarrow>
                 (\<exists>nb. knn_approx hp s query = Inr nb \<and> length nb = b
                    \<and> list_all (is_tensor2 (topk hp) (emb_dim hp)) nb
                    \<and> (\<forall>i<b. \<exists>idx.
                          length idx = topk hp \<and> (\<forall>j\<in>set idx. j < num_negatives hp)
                          \<and> nb ! i = map (\<lambda>j. transpose_t (queue s) ! j) idx
                          \<and> idx = argKmin (topk hp)
                                    (map (\<lambda>y. the (D_ij (query ! i) y)) (transpose_t (queue s)))
                          \<and> (topk hp \<le> num_negatives hp \<longrightarrow> distinct idx
                                \<and> sorted (map (\<lambda>j. the (D_ij (query ! i) (transpose_t (queue s) ! j))) idx)
                                \<and> (\<forall>m<num_negatives hp. m \<notin> set idx \<longrightarrow>
                                      (\<forall>j\<in>set idx.
                                          the (D_ij (query ! i) (transpose_t (queue s) ! j))
                                            \<le> the (D_ij (query ! i) (transpose_t (queue s) ! m)))))
                          \<and> (num_negatives hp \<le> topk hp \<longrightarrow>
                                drop (num_negatives hp) idx
                                  = replicate (topk hp - num_negatives hp) 0))))))"
proof (intro conjI impI)
  assume "metric hp \<notin> set supported_metrics"
  then have "metric_distance (metric hp) = None" by (simp add: metric_distance_None_iff)
  then show "knn_approx hp s query = Inl UnboundLocalError"
    by (simp add: knn_approx_def Let_def)
next
  assume sup: "metric hp \<in> set supported_metrics"
  then obtain D_ij where m: "metric_distance (metric hp) = Some D_ij"
    using metric_distance_None_iff [of "metric hp"] by auto
  let ?qT = "transpose_t (queue s)"
  have f1: "metric hp = ''euclidean'' \<longrightarrow>
                 D_ij = (\<lambda>x y. Some (\<Sum>(a, b)\<leftarrow>zip x y. (a - b)\<^sup>2))"
    using m by (auto simp: metric_distance_def sq_dist_def)
  have f2: "metric hp = ''manhattan'' \<longrightarrow>
                 D_ij = (\<lambda>x y. Some (\<Sum>(a, b)\<leftarrow>zip x y. \<bar>a - b\<bar>))"
    using m by (auto simp: metric_distance_def)
  have f3: "metric hp = ''angular'' \<longrightarrow>
                 D_ij = (\<lambda>x y. Some (- (\<Sum>(a, b)\<leftarrow>zip x y. a * b)))"
    using m by (auto simp: metric_distance_def dot_def)
  have f4: "metric hp = ''hyperbolic'' \<longrightarrow>
                 (\<forall>x y. x ! 0 * y ! 0 \<noteq> 0 \<longrightarrow>
                    D_ij x y = Some ((\<Sum>(a, b)\<leftarrow>zip x y. (a - b)\<^sup>2) / (x ! 0 * y ! 0)))"
    using m by (auto simp: metric_distance_def sq_dist_def fdiv_def)
  have f5: "metric hp = ''ang+hyper'' \<longrightarrow>
                 (\<forall>x y. x ! 0 * y ! 0 \<noteq> 0 \<longrightarrow>
                    D_ij x y = Some (- (\<Sum>(a, b)\<leftarrow>zip x y. a * b)
                                     + (\<Sum>(a, b)\<leftarrow>zip x y. (a - b)\<^sup>2) / (x ! 0 * y ! 0)))"
    using m by (auto simp: metric_distance_def sq_dist_def fdiv_def dot_def)
  have f6: "\<forall>b. 0 < emb_dim hp \<longrightarrow> 0 < num_negatives hp \<longrightarrow>
                 is_tensor2 (emb_dim hp) (num_negatives hp) (queue s) \<longrightarrow>
                 is_tensor2 b (emb_dim hp) query \<longrightarrow>
                 (\<forall>x\<in>set query. \<forall>y\<in>set ?qT. D_ij x y \<noteq> None) \<longrightarrow>
                 (\<exists>nb. knn_approx hp s query = Inr nb \<and> length nb = b
                    \<and> list_all (is_tensor2 (topk hp) (emb_dim hp)) nb
                    \<and> (\<forall>i<b. \<exists>idx.
                          length idx = topk hp \<and> (\<forall>j\<in>set idx. j < num_negatives hp)
                          \<and> nb ! i = map (\<lambda>j. ?qT ! j) idx
                          \<and> idx = argKmin (topk hp) (map (\<lambda>y. the (D_ij (query ! i) y)) ?qT)
                          \<and> (topk hp \<le> num_negatives hp \<longrightarrow> distinct idx
                                \<and> sorted (map (\<lambda>j. the (D_ij (query ! i) (?qT ! j))) idx)
                                \<and> (\<forall>m<num_negatives hp. m \<notin> set idx \<longrightarrow>
                                      (\<forall>j\<in>set idx.
                                          the (D_ij (query ! i) (?qT ! j))
                                            \<le> the (D_ij (query ! i) (?qT ! m)))))
                          \<and> (num_negatives hp \<le> topk hp \<longrightarrow>
                                drop (num_negatives hp) idx
                                  = replicate (topk hp - num_negatives hp) 0)))"
  proof (intro allI impI)
    fix b
    assume d: "0 < emb_dim hp" and n: "0 < num_negatives hp"
      and q: "is_tensor2 (emb_dim hp) (num_negatives hp) (queue s)"
      and x: "is_tensor2 b (emb_dim hp) query"
      and fin: "\<forall>x\<in>set query. \<forall>y\<in>set ?qT. D_ij x y \<noteq> None"
    let ?row = "\<lambda>x. argKmin (topk hp) (map (\<lambda>y. the (D_ij x y)) ?qT)"
    let ?nb = "map (\<lambda>x. map (\<lambda>j. ?qT ! j) (?row x)) query"
    have r: "knn_approx hp s query = Inr ?nb" by (rule knn_approx_result [OF m d n q x fin])
    have t: "is_tensor2 (num_negatives hp) (emb_dim hp) ?qT" by (rule transpose_t_shape [OF q d])
    have lt: "length ?qT = num_negatives hp" using t by (simp add: is_tensor2_def)
    have lb: "length ?nb = b" using x by (simp add: is_tensor2_def)
    note props = knn_row_props [OF lt n refl, of "topk hp" D_ij]
    have shp: "list_all (is_tensor2 (topk hp) (emb_dim hp)) ?nb"
    proof -
      have "is_tensor2 (topk hp) (emb_dim hp) (map (\<lambda>j. ?qT ! j) (?row x))" for x
        using props(1,2) [of x] t by (simp add: is_tensor2_def list_all_length)
      then show ?thesis by (simp add: list_all_iff)
    qed
    have rows: "\<forall>i<b. \<exists>idx.
                          length idx = topk hp \<and> (\<forall>j\<in>set idx. j < num_negatives hp)
                          \<and> ?nb ! i = map (\<lambda>j. ?qT ! j) idx
                          \<and> idx = argKmin (topk hp) (map (\<lambda>y. the (D_ij (query ! i) y)) ?qT)
                          \<and> (topk hp \<le> num_negatives hp \<longrightarrow> distinct idx
                                \<and> sorted (map (\<lambda>j. the (D_ij (query ! i) (?qT ! j))) idx)
                                \<and> (\<forall>m<num_negatives hp. m \<notin> set idx \<longrightarrow>
                                      (\<forall>j\<in>set idx.
                                          the (D_ij (query ! i) (?qT ! j))
                                            \<le> the (D_ij (query ! i) (?qT ! m)))))
                          \<and> (num_negatives hp \<le> topk hp \<longrightarrow>
                                drop (num_negatives hp) idx
                                  = replicate (topk hp - num_negatives hp) 0)"
    proof (intro allI impI)
      fix i assume i: "i < b"
      have ni: "?nb ! i = map (\<lambda>j. ?qT ! j) (?row (query ! i))"
        using i x by (simp add: is_tensor2_def)
      show "\<exists>idx.
                          length idx = topk hp \<and> (\<forall>j\<in>set idx. j < num_negatives hp)
                          \<and> ?nb ! i = map (\<lambda>j. ?qT ! j) idx
                          \<and> idx = argKmin (topk hp) (map (\<lambda>y. the (D_ij (query ! i) y)) ?qT)
                          \<and> (topk hp \<le> num_negatives hp \<longrightarrow> distinct idx
                                \<and> sorted (map (\<lambda>j. the (D_ij (query ! i) (?qT ! j))) idx)
                                \<and> (\<forall>m<num_negatives hp. m \<notin> set idx \<longrightarrow>
                                      (\<forall>j\<in>set idx.
                                          the (D_ij (query ! i) (?qT ! j))
                                            \<le> the (D_ij (query ! i) (?qT ! m)))))
                          \<and> (num_negatives hp \<le> topk hp \<longrightarrow>
                                drop (num_negatives hp) idx
                                  = replicate (topk hp - num_negatives hp) 0)"
        by (rule exI [of _ "?row (query ! i)"])
           (intro conjI props(1) props(2) ni refl props(3) props(4))
    qed
    show "\<exists>nb. knn_approx hp s query = Inr nb \<and> length nb = b
                    \<and> list_all (is_tensor2 (topk hp) (emb_dim hp)) nb
                    \<and> (\<forall>i<b. \<exists>idx.
                          length idx = topk hp \<and> (\<forall>j\<in>set idx. j < num_negatives hp)
                          \<and> nb ! i = map (\<lambda>j. ?qT ! j) idx
                          \<and> idx = argKmin (topk hp) (map (\<lambda>y. the (D_ij (query ! i) y)) ?qT)
                          \<and> (topk hp \<le> num_negatives hp \<longrightarrow> distinct idx
                                \<and> sorted (map (\<lambda>j. the (D_ij (query ! i) (?qT ! j))) idx)
                                \<and> (\<forall>m<num_negatives hp. m \<notin> set idx \<longrightarrow>
                                      (\<forall>j\<in>set idx.
                                          the (D_ij (query ! i) (?qT ! j))
                                            \<le> the (D_ij (query ! i) (?qT ! m)))))
                          \<and> (num_negatives hp \<le> topk hp \<longrightarrow>
                                drop (num_negatives hp) idx
                                  = replicate (topk hp - num_negatives hp) 0))"
      by (rule exI [of _ ?nb]) (intro conjI r lb shp rows)
  qed
  show "\<exists>D_ij. metric_distance (metric hp) = Some D_ij
           \<and> (metric hp = ''euclidean'' \<longrightarrow>
                 D_ij = (\<lambda>x y. Some (\<Sum>(a, b)\<leftarrow>zip x y. (a - b)\<^sup>2)))
           \<and> (metric hp = ''manhattan'' \<longrightarrow>
                 D_ij = (\<lambda>x y. Some (\<Sum>(a, b)\<leftarrow>zip x y. \<bar>a - b\<bar>)))
           \<and> (metric hp = ''angular'' \<longrightarrow>
                 D_ij = (\<lambda>x y. Some (- (\<Sum>(a, b)\<leftarrow>zip x y. a * b))))
           \<and> (metric hp = ''hyperbolic'' \<longrightarrow>
                 (\<forall>x y. x ! 0 * y ! 0 \<noteq> 0 \<longrightarrow>
                    D_ij x y = Some ((\<Sum>(a, b)\<leftarrow>zip x y. (a - b)\<^sup>2) / (x ! 0 * y ! 0))))
           \<and> (metric hp = ''ang+hyper'' \<longrightarrow>
                 (\<forall>x y. x ! 0 * y ! 0 \<noteq> 0 \<longrightarrow>
                    D_ij x y = Some (- (\<Sum>(a, b)\<leftarrow>zip x y. a * b)
                                     + (\<Sum>(a, b)\<leftarrow>zip x y. (a - b)\<^sup>2) / (x ! 0 * y ! 0))))
           \<and> (\<forall>b. 0 < emb_dim hp \<longrightarrow> 0 < num_negatives hp \<longrightarrow>
                 is_tensor2 (emb_dim hp) (num_negatives hp) (queue s) \<longrightarrow>
                 is_tensor2 b (emb_dim hp) query \<longrightarrow>
                 (\<forall>x\<in>set query. \<forall>y\<in>set (transpose_t (queue s)). D_ij x y \<noteq> None) \<longrightarrow>
                 (\<exists>nb. knn_approx hp s query = Inr nb \<and> length nb = b
                    \<and> list_all (is_tensor2 (topk hp) (emb_dim hp)) nb
                    \<and> (\<forall>i<b. \<exists>idx.
                          length idx = topk hp \<and> (\<forall>j\<in>set idx. j < num_negatives hp)
                          \<and> nb ! i = map (\<lambda>j. transpose_t (queue s) ! j) idx
                          \<and> idx = argKmin (topk hp)
                                    (map (\<lambda>y. the (D_ij (query ! i) y)) (transpose_t (queue s)))
                          \<and> (topk hp \<le> num_negatives hp \<longrightarrow> distinct idx
                                \<and> sorted (map (\<lambda>j. the (D_ij (query ! i) (transpose_t (queue s) ! j))) idx)
                                \<and> (\<forall>m<num_negatives hp. m \<notin> set idx \<longrightarrow>
                                      (\<forall>j\<in>set idx.
                                          the (D_ij (query ! i) (transpose_t (queue s) ! j))
                                            \<le> the (D_ij (query ! i) (transpose_t (queue s) ! m)))))
                          \<and> (num_negatives hp \<le> topk hp \<longrightarrow>
                                drop (num_negatives hp) idx
                                  = replicate (topk hp - num_negatives hp) 0))))"
    by (rule exI [of _ D_ij]) (intro conjI m f1 f2 f3 f4 f5 f6)
qed

subsection \<open>Runs on concrete inputs\<close>

lemmas eval_defs = forward_def key_features_def scale_net_def normalize_rows_def
      einsum_nc_nc_n_def same_shape_def dot_def knn_approx_def transpose_t_def ncols_def
      metric_distance_def sq_dist_def argKmin_def argsort_def gather_rows_def
      einsum_nc_njc_nc_def einsum_nc_ck_nk_def Let_def power2_eq_square

lemmas enqueue_eval_defs = dequeue_and_enqueue_def enqueue_gather_def gathered_keys_def
      assign_cols_def slice_len_def keys_T_def

lemmas knn_eval_defs = knn_approx_def transpose_t_def ncols_def metric_distance_def sq_dist_def
  fdiv_def dot_def argKmin_def argsort_def gather_rows_def Let_def power2_eq_square

theorem knn_approx_metric_dispatch_witness:
  "knn_approx (knn_hp\<lparr>metric := ''cosine''\<rparr>) knn_state [[1, 0]] = Inl UnboundLocalError
   \<and> knn_approx knn_hp knn_state [[1, 0]] = Inr [[[1, 0], [3/5, 4/5], [0, 1]]]
   \<and> knn_approx (knn_hp\<lparr>metric := ''hyperbolic''\<rparr>)
         (knn_state\<lparr>queue := [[-1, 1, 1/2, 3/5], [0, 0, 1/2, 4/5]]\<rparr>) [[1, 0]]
       = Inr [[[-1, 0], [1, 0], [1/2, 1/2]]]"
proof -
  have u: "metric (knn_hp\<lparr>metric := ''cosine''\<rparr>) \<notin> set supported_metrics"
    by (simp add: supported_metrics_def)
  have a: "knn_approx (knn_hp\<lparr>metric := ''cosine''\<rparr>) knn_state [[1, 0]] = Inl UnboundLocalError"
    using knn_approx_metric_dispatch [of "knn_hp\<lparr>metric := ''cosine''\<rparr>" knn_state "[[1, 0]]",
        THEN conjunct1, rule_format, OF u] .
  have m: "metric knn_hp \<in> set supported_metrics"
    by (simp add: supported_metrics_def knn_hp_def)
  note r = knn_approx_metric_dispatch [of knn_hp knn_state "[[1, 0]]",
        THEN conjunct2, rule_format, OF m]
  have b: "knn_approx knn_hp knn_state [[1, 0]] = Inr [[[1, 0], [3/5, 4/5], [0, 1]]]"
    using r
  proof (elim exE conjE)
    fix D_ij :: "vec \<Rightarrow> vec \<Rightarrow> real option"
    assume e: "metric knn_hp = ''euclidean'' \<longrightarrow>
                 D_ij = (\<lambda>x y. Some (\<Sum>(a, b)\<leftarrow>zip x y. (a - b)\<^sup>2))"
      and all: "\<forall>b. 0 < emb_dim knn_hp \<longrightarrow> 0 < num_negatives knn_hp \<longrightarrow>
                 is_tensor2 (emb_dim knn_hp) (num_negatives knn_hp) (queue knn_state) \<longrightarrow>
                 is_tensor2 b (emb_dim knn_hp) [[1, 0]] \<longrightarrow>
                 (\<forall>x\<in>set [[1, 0]]. \<forall>y\<in>set (transpose_t (queue knn_state)). D_ij x y \<noteq> None) \<longrightarrow>
                 (\<exists>nb. knn_approx knn_hp knn_state [[1, 0]] = Inr nb \<and> length nb = b
                    \<and> list_all (is_tensor2 (topk knn_hp) (emb_dim knn_hp)) nb
                    \<and> (\<forall>i<b. \<exists>idx.
                          length idx = topk knn_hp \<and> (\<forall>j\<in>set idx. j < num_negatives knn_hp)
                          \<and> nb ! i = map (\<lambda>j. (transpose_t (queue knn_state)) ! j) idx
                          \<and> idx = argKmin (topk knn_hp) (map (\<lambda>y. the (D_ij ([[1, 0]] ! i) y)) (transpose_t (queue knn_state)))
                          \<and> (topk knn_hp \<le> num_negatives knn_hp \<longrightarrow> distinct idx
                                \<and> sorted (map (\<lambda>j. the (D_ij ([[1, 0]] ! i) (transpose_t (queue knn_state) ! j))) idx)
                                \<and> (\<forall>m<num_negatives knn_hp. m \<notin> set idx \<longrightarrow>
                                      (\<forall>j\<in>set idx.
                                          the (D_ij ([[1, 0]] ! i) (transpose_t (queue knn_state) ! j))
                                            \<le> the (D_ij ([[1, 0]] ! i) (transpose_t (queue knn_state) ! m)))))
                          \<and> (num_negatives knn_hp \<le> topk knn_hp \<longrightarrow>
                                drop (num_negatives knn_hp) idx
                                  = replicate (topk knn_hp - num_negatives knn_hp) 0)))"
    have D: "D_ij = (\<lambda>x y. Some (\<Sum>(a, b)\<leftarrow>zip x y. (a - b)\<^sup>2))"
      using e by (simp add: knn_hp_def)
    have h: "0 < emb_dim knn_hp" "0 < num_negatives knn_hp"
      "is_tensor2 (emb_dim knn_hp) (num_negatives knn_hp) (queue knn_state)"
      "is_tensor2 1 (emb_dim knn_hp) [[1, 0]]"
      "\<forall>x\<in>set [[1, 0]]. \<forall>y\<in>set (transpose_t (queue knn_state)). D_ij x y \<noteq> None"
      by (simp_all add: knn_hp_def knn_state_def is_tensor2_def D)
    from all [THEN spec, THEN mp, THEN mp, THEN mp, THEN mp, THEN mp, OF h] show ?thesis
    proof (elim exE conjE)
      fix nb
      assume k: "knn_approx knn_hp knn_state [[1, 0]] = Inr nb" and l: "length nb = 1"
        and rows: "(\<forall>i<1. \<exists>idx.
                          length idx = topk knn_hp \<and> (\<forall>j\<in>set idx. j < num_negatives knn_hp)
                          \<and> nb ! i = map (\<lambda>j. (transpose_t (queue knn_state)) ! j) idx
                          \<and> idx = argKmin (topk knn_hp) (map (\<lambda>y. the (D_ij ([[1, 0]] ! i) y)) (transpose_t (queue knn_state)))
                          \<and> (topk knn_hp \<le> num_negatives knn_hp \<longrightarrow> distinct idx
                                \<and> sorted (map (\<lambda>j. the (D_ij ([[1, 0]] ! i) (transpose_t (queue knn_state) ! j))) idx)
                                \<and> (\<forall>m<num_negatives knn_hp. m \<notin> set idx \<longrightarrow>
                                      (\<forall>j\<in>set idx.
                                          the (D_ij ([[1, 0]] ! i) (transpose_t (queue knn_state) ! j))
                                            \<le> the (D_ij ([[1, 0]] ! i) (transpose_t (queue knn_state) ! m)))))
                          \<and> (num_negatives knn_hp \<le> topk knn_hp \<longrightarrow>
                                drop (num_negatives knn_hp) idx
                                  = replicate (topk knn_hp - num_negatives knn_hp) 0))"
      from rows [rule_format, of 0] obtain idx where
        n0: "nb ! 0 = map (\<lambda>j. (transpose_t (queue knn_state)) ! j) idx"
        and ix: "idx = argKmin (topk knn_hp)
                   (map (\<lambda>y. the (D_ij ([[1, 0]] ! 0) y)) (transpose_t (queue knn_state)))"
        by auto
      have "idx = [2, 3, 0]"
        unfolding ix D
        by (simp add: knn_hp_def knn_state_def transpose_t_def ncols_def argKmin_def argsort_def
            power2_eq_square)
      then have "nb ! 0 = [[1, 0], [3/5, 4/5], [0, 1]]"
        using n0 by (simp add: knn_state_def transpose_t_def ncols_def)
      then have "nb = [[[1, 0], [3/5, 4/5], [0, 1]]]"
        using l by (cases nb) simp_all
      then show ?thesis using k by simp
    qed
  qed
  have c: "knn_approx (knn_hp\<lparr>metric := ''hyperbolic''\<rparr>)
         (knn_state\<lparr>queue := [[-1, 1, 1/2, 3/5], [0, 0, 1/2, 4/5]]\<rparr>) [[1, 0]]
       = Inr [[[-1, 0], [1, 0], [1/2, 1/2]]]"
    by (simp add: knn_hp_def knn_state_def knn_eval_defs del: not_None_eq)
  show ?thesis by (intro conjI a b c)
qed

theorem forward_positive_is_column_0_witness:
  "softmax_temperature (small_hp\<lparr>softmax_temperature := 1/2\<rparr>) \<noteq> 0
   \<and> forward (small_hp\<lparr>softmax_temperature := 1/2\<rparr>) stub_ext knn_state None
         [[1, 0], [0, 1]] [[0, 1], [0, 1]] (queue knn_state)
       = Inr ([[0, 0, -2, 2, 6/5], [2, 2, 0, 0, 8/5]], [0, 0], [[1, 0], [0, 1]], [[0, 1], [0, 1]])
   \<and> [[0, 0, -2, 2, 6/5], [2, 2, 0, 0, 8/5]] ! 1 ! 0 = dot [0, 1] [0, 1] / (1/2 :: real)
   \<and> [[0, 0, -2, 2, 6/5], [2, 2, 0, 0, 8/5]] ! 1 ! 4 = (0 * (3/5) + 1 * (4/5)) / (1/2 :: real)"
proof -
  let ?hp = "small_hp\<lparr>softmax_temperature := 1/2\<rparr>"
  have T: "softmax_temperature ?hp \<noteq> 0" by simp
  have e: "forward ?hp stub_ext knn_state None
         [[1, 0], [0, 1]] [[0, 1], [0, 1]] (queue knn_state)
       = Inr ([[0, 0, -2, 2, 6/5], [2, 2, 0, 0, 8/5]], [0, 0], [[1, 0], [0, 1]], [[0, 1], [0, 1]])"
    by (simp add: small_hp_def knn_state_def stub_ext_def eval_defs)
  note r = forward_positive_is_column_0 [OF T, THEN conjunct1, rule_format, OF e]
  have "[[0, 0, -2, 2, 6/5], [2, 2, 0, 0, 8/5]] ! 1 ! 0
          = dot ([[1, 0], [0, 1]] ! 1) ([[0, 1], [0, 1]] ! 1) / softmax_temperature ?hp"
    using r [THEN conjunct2, THEN conjunct2, THEN conjunct2, THEN conjunct2, THEN conjunct2,
        THEN conjunct2, THEN conjunct1, rule_format, of 1]
    by simp
  then have c0: "[[0, 0, -2, 2, 6/5], [2, 2, 0, 0, 8/5]] ! 1 ! 0 = dot [0, 1] [0, 1] / (1/2 :: real)"
    by simp
  have nk: "\<not> use_knn ?hp" by (simp add: small_hp_def)
  have "[[0, 0, -2, 2, 6/5], [2, 2, 0, 0, 8/5]] ! 1 ! Suc 3
          = (\<Sum>c\<leftarrow>[0..<length (queue knn_state)]. [[1, 0], [0, 1]] ! 1 ! c * queue knn_state ! c ! 3)
              / softmax_temperature ?hp"
    using r [THEN conjunct2, THEN conjunct2, THEN conjunct2, THEN conjunct2, THEN conjunct2,
        THEN conjunct2, THEN conjunct2, THEN conjunct2, rule_format, OF nk, of 1,
        THEN conjunct2, rule_format, of 3]
    by (simp add: knn_state_def ncols_def)
  then have c4: "[[0, 0, -2, 2, 6/5], [2, 2, 0, 0, 8/5]] ! 1 ! 4 = (0 * (3/5) + 1 * (4/5)) / (1/2 :: real)"
    by (simp add: knn_state_def)
  show ?thesis by (intro conjI T e c0 c4)
qed

text \<open>
  C1. On the KNN path the negative block is not the dot products of the query
  with its neighbours. For the query \<open>(1,0)\<close> the miner returns the three
  neighbours \<open>(1,0), (3/5,4/5), (0,1)\<close>, whose dot products with the query are
  \<open>1, 3/5, 0\<close>; the logits row is \<open>[1, 8/5, 0]\<close>: after the positive logit it
  holds one entry per embedding coordinate (the query coordinate times the sum of
  that coordinate over the neighbours), two entries and not three.
\<close>

theorem forward_knn_negative_block:
  "knn_approx knn_hp knn_state [[1, 0]] = Inr [[[1, 0], [3/5, 4/5], [0, 1]]]
   \<and> forward knn_hp (ext\<lparr>net := scale_net\<rparr>) knn_state None [[1, 0]] [[1, 0]] (queue knn_state)
       = Inr ([[1, 8/5, 0]], [0], [[1, 0]], [[1, 0]])
   \<and> map (\<lambda>y. dot [1, 0] y) [[1, 0], [3/5, 4/5], [0, 1]] = [1, 3/5, 0]"
  by (simp add: knn_hp_def knn_state_def eval_defs del: not_None_eq)

text \<open>
  C2. On the KNN path a validation step draws its negatives from the training
  queue. In \<open>knn_state4\<close> the miner returns the training-queue entries
  \<open>(1,0,0,0), (3/5,4/5,0,0), (0,1,0,0)\<close>; \<open>forward\<close>, called with the validation
  queue as the validation step calls it, gives the logits \<open>[1, 8/5, 0, 0, 0]\<close>,
  and the step returns loss and metrics of these logits. They become
  \<open>[1, 0, 0, 0, 0]\<close> when the training queue is replaced by a copy of the
  validation queue, the validation queue being the same in both runs. Only the
  validation queue and its pointer are written.
\<close>

theorem validation_knn_uses_training_queue:
  "knn_approx knn_hp4 knn_state4 [[1, 0, 0, 0]]
     = Inr [[[1, 0, 0, 0], [3/5, 4/5, 0, 0], [0, 1, 0, 0]]]
   \<and> forward knn_hp4 (ext\<lparr>net := scale_net\<rparr>) knn_state4 None [[1, 0, 0, 0]] [[1, 0, 0, 0]]
         (val_queue knn_state4)
     = Inr ([[1, 8/5, 0, 0, 0]], [0], [[1, 0, 0, 0]], [[1, 0, 0, 0]])
   \<and> validation_step knn_hp4 (ext\<lparr>net := scale_net\<rparr>) knn_state4 None [[1, 0, 0, 0]] [[1, 0, 0, 0]]
     = Inr ((cross_entropy ext [[1, 8/5, 0, 0, 0]] [0], precision_at_k ext [[1, 8/5, 0, 0, 0]] [0]),
            knn_state4\<lparr>val_queue := [[1, 0, 0, 0], [0, -1, -1, -1], [0, 0, 0, 0], [0, 0, 0, 0]],
                        val_queue_ptr := 1\<rparr>)
   \<and> validation_step knn_hp4 (ext\<lparr>net := scale_net\<rparr>) (knn_state4\<lparr>queue := val_queue knn_state4\<rparr>)
         None [[1, 0, 0, 0]] [[1, 0, 0, 0]]
     = Inr ((cross_entropy ext [[1, 0, 0, 0, 0]] [0], precision_at_k ext [[1, 0, 0, 0, 0]] [0]),
            knn_state4\<lparr>queue := val_queue knn_state4,
                        val_queue := [[1, 0, 0, 0], [0, -1, -1, -1], [0, 0, 0, 0], [0, 0, 0, 0]],
                        val_queue_ptr := 1\<rparr>)"
  by (simp add: validation_step_def precision_at_1_5_def knn_hp4_def knn_state4_def eval_defs
      enqueue_eval_defs del: not_None_eq)

subsection \<open>Training step\<close>

lemma momentum_keeps_queue:
  "queue (momentum_update_key_encoder hp s) = queue s"
  "queue_ptr (momentum_update_key_encoder hp s) = queue_ptr s"
  "encoder_q (momentum_update_key_encoder hp s) = encoder_q s"
  by (simp_all add: momentum_update_key_encoder_def)

lemma precision_at_1_5_Inr_iff:
  "(\<exists>acc. precision_at_1_5 ext outp target = Inr acc) \<longleftrightarrow> outp \<noteq> [] \<and> 5 \<le> ncols outp"
  by (auto simp: precision_at_1_5_def)

text \<open>
  C8. The order of a training step, read off the module it leaves behind and the
  exception it raises. Whatever happens later, the key encoder of the module left
  behind is the blended one, and nothing but the queue and its pointer differs
  from the module after the momentum update. The forward pass runs in the module
  the update left, against the training queue as it was before the step; when it
  raises, the step raises with the queue untouched. The keys it returns are the
  key features under the blended key encoder, and these keys are enqueued at the
  old pointer of the old queue; when the enqueue raises, the step raises with the
  queue untouched. Loss and metrics come last: when the metrics raise, the step
  raises with the queue already written; otherwise it returns the loss of the
  logits of the forward pass. The step returns exactly when the forward pass and
  the enqueue return and the logits have at least five columns.
\<close>

theorem training_step_order:
  "encoder_k (module_after (training_step hp ext s env img_1 img_2))
     = momentum_params (encoder_momentum hp) (encoder_q s) (encoder_k s)
   \<and> module_after (training_step hp ext s env img_1 img_2)
     = (momentum_update_key_encoder hp s)
         \<lparr>queue := queue (module_after (training_step hp ext s env img_1 img_2)),
          queue_ptr := queue_ptr (module_after (training_step hp ext s env img_1 img_2))\<rparr>
   \<and> (\<forall>e. forward hp ext (momentum_update_key_encoder hp s) env img_1 img_2 (queue s) = Inl e \<longrightarrow>
          training_step hp ext s env img_1 img_2 = Inl (e, momentum_update_key_encoder hp s))
   \<and> (\<forall>outp target query keys.
          forward hp ext (momentum_update_key_encoder hp s) env img_1 img_2 (queue s)
            = Inr (outp, target, query, keys) \<longrightarrow>
          key_features ext (momentum_update_key_encoder hp s) env img_2 = Inr keys
          \<and> (\<forall>e. dequeue_and_enqueue hp (enqueue_gather env) keys (queue_ptr s) (queue s) = Inl e \<longrightarrow>
                 training_step hp ext s env img_1 img_2 = Inl (e, momentum_update_key_encoder hp s))
          \<and> (\<forall>ptr' queue'.
                 dequeue_and_enqueue hp (enqueue_gather env) keys (queue_ptr s) (queue s)
                   = Inr (ptr', queue') \<longrightarrow>
                 (\<forall>e. precision_at_1_5 ext outp target = Inl e \<longrightarrow>
                    training_step hp ext s env img_1 img_2
                      = Inl (e, (momentum_update_key_encoder hp s)\<lparr>queue := queue', queue_ptr := ptr'\<rparr>))
                 \<and> (\<forall>acc. precision_at_1_5 ext outp target = Inr acc \<longrightarrow>
                    training_step hp ext s env img_1 img_2
                      = Inr (cross_entropy ext outp target
                               + (if use_kmeans hp
                                  then kmeans_loss hp
                                         ((momentum_update_key_encoder hp s)\<lparr>queue := queue', queue_ptr := ptr'\<rparr>)
                                         query keys
                                  else 0),
                             (cross_entropy ext outp target
                               + (if use_kmeans hp
                                  then kmeans_loss hp
                                         ((momentum_update_key_encoder hp s)\<lparr>queue := queue', queue_ptr := ptr'\<rparr>)
                                         query keys
                                  else 0),
                              fst acc, snd acc),
                             (momentum_update_key_encoder hp s)\<lparr>queue := queue', queue_ptr := ptr'\<rparr>))))
   \<and> ((\<exists>loss log s'. training_step hp ext s env img_1 img_2 = Inr (loss, log, s'))
        \<longleftrightarrow> (\<exists>outp target query keys ptr' queue'.
               forward hp ext (momentum_update_key_encoder hp s) env img_1 img_2 (queue s)
                 = Inr (outp, target, query, keys)
               \<and> dequeue_and_enqueue hp (enqueue_gather env) keys (queue_ptr s) (queue s)
                   = Inr (ptr', queue')
               \<and> outp \<noteq> [] \<and> 5 \<le> ncols outp))"
proof -
  let ?s1 = "momentum_update_key_encoder hp s"
  let ?R = "training_step hp ext s env img_1 img_2"
  let ?F = "forward hp ext ?s1 env img_1 img_2 (queue s)"
  have fl: "?R = Inl (e, ?s1)" if "?F = Inl e" for e
    using that by (simp add: training_step_def Let_def momentum_keeps_queue)
  have el: "?R = Inl (e, ?s1)"
    if "?F = Inr (outp, target, query, keys)"
      and "dequeue_and_enqueue hp (enqueue_gather env) keys (queue_ptr s) (queue s) = Inl e"
    for outp target query keys e
    using that by (simp add: training_step_def Let_def momentum_keeps_queue)
  have pl: "?R = Inl (e, ?s1\<lparr>queue := queue', queue_ptr := ptr'\<rparr>)"
    if "?F = Inr (outp, target, query, keys)"
      and "dequeue_and_enqueue hp (enqueue_gather env) keys (queue_ptr s) (queue s) = Inr (ptr', queue')"
      and "precision_at_1_5 ext outp target = Inl e"
    for outp target query keys ptr' queue' e
    using that by (simp add: training_step_def Let_def momentum_keeps_queue)
  have pr: "?R = Inr (cross_entropy ext outp target
                        + (if use_kmeans hp
                           then kmeans_loss hp (?s1\<lparr>queue := queue', queue_ptr := ptr'\<rparr>) query keys
                           else 0),
                      (cross_entropy ext outp target
                        + (if use_kmeans hp
                           then kmeans_loss hp (?s1\<lparr>queue := queue', queue_ptr := ptr'\<rparr>) query keys
                           else 0),
                       fst acc, snd acc),
                      ?s1\<lparr>queue := queue', queue_ptr := ptr'\<rparr>)"
    if "?F = Inr (outp, target, query, keys)"
      and "dequeue_and_enqueue hp (enqueue_gather env) keys (queue_ptr s) (queue s) = Inr (ptr', queue')"
      and "precision_at_1_5 ext outp target = Inr acc"
    for outp target query keys ptr' queue' acc
    using that by (simp add: training_step_def Let_def momentum_keeps_queue)
  have kf: "key_features ext ?s1 env img_2 = Inr keys"
    if "?F = Inr (outp, target, query, keys)" for outp target query keys
    using that by (rule forward_Inr)
  have after: "\<exists>q p. module_after ?R = ?s1\<lparr>queue := q, queue_ptr := p\<rparr>"
  proof (cases ?F)
    case (Inl e)
    have "module_after ?R = ?s1\<lparr>queue := queue ?s1, queue_ptr := queue_ptr ?s1\<rparr>"
      using fl [OF Inl] by (simp add: module_after_def)
    then show ?thesis by blast
  next
    case (Inr r)
    obtain outp target query keys where r: "r = (outp, target, query, keys)" by (cases r)
    note f = Inr [unfolded r]
    show ?thesis
    proof (cases "dequeue_and_enqueue hp (enqueue_gather env) keys (queue_ptr s) (queue s)")
      case (Inl e)
      have "module_after ?R = ?s1\<lparr>queue := queue ?s1, queue_ptr := queue_ptr ?s1\<rparr>"
        using el [OF f Inl] by (simp add: module_after_def)
      then show ?thesis by blast
    next
      case (Inr st)
      obtain ptr' queue' where st: "st = (ptr', queue')" by (cases st)
      note d = Inr [unfolded st]
      show ?thesis
      proof (cases "precision_at_1_5 ext outp target")
        case (Inl e)
        show ?thesis using pl [OF f d Inl] by (auto simp: module_after_def)
      next
        case (Inr acc)
        show ?thesis using pr [OF f d Inr] by (auto simp: module_after_def)
      qed
    qed
  qed
  then obtain q p where ma: "module_after ?R = ?s1\<lparr>queue := q, queue_ptr := p\<rparr>" by blast
  have a1: "encoder_k (module_after ?R)
              = momentum_params (encoder_momentum hp) (encoder_q s) (encoder_k s)"
    by (simp add: ma momentum_update_key_encoder_def)
  have a2: "module_after ?R
              = ?s1\<lparr>queue := queue (module_after ?R), queue_ptr := queue_ptr (module_after ?R)\<rparr>"
    by (simp add: ma)
  have b: "\<forall>e. ?F = Inl e \<longrightarrow> ?R = Inl (e, ?s1)" using fl by blast
  have c: "\<forall>outp target query keys.
          ?F = Inr (outp, target, query, keys) \<longrightarrow>
          key_features ext ?s1 env img_2 = Inr keys
          \<and> (\<forall>e. dequeue_and_enqueue hp (enqueue_gather env) keys (queue_ptr s) (queue s) = Inl e \<longrightarrow>
                 ?R = Inl (e, ?s1))
          \<and> (\<forall>ptr' queue'.
                 dequeue_and_enqueue hp (enqueue_gather env) keys (queue_ptr s) (queue s)
                   = Inr (ptr', queue') \<longrightarrow>
                 (\<forall>e. precision_at_1_5 ext outp target = Inl e \<longrightarrow>
                    ?R = Inl (e, ?s1\<lparr>queue := queue', queue_ptr := ptr'\<rparr>))
                 \<and> (\<forall>acc. precision_at_1_5 ext outp target = Inr acc \<longrightarrow>
                    ?R = Inr (cross_entropy ext outp target
                               + (if use_kmeans hp
                                  then kmeans_loss hp (?s1\<lparr>queue := queue', queue_ptr := ptr'\<rparr>)
                                         query keys
                                  else 0),
                             (cross_entropy ext outp target
                               + (if use_kmeans hp
                                  then kmeans_loss hp (?s1\<lparr>queue := queue', queue_ptr := ptr'\<rparr>)
                                         query keys
                                  else 0),
                              fst acc, snd acc),
                             ?s1\<lparr>queue := queue', queue_ptr := ptr'\<rparr>)))"
    using kf el pl pr by (intro allI impI conjI) assumption+
  have d: "(\<exists>loss log s'. ?R = Inr (loss, log, s'))
        \<longleftrightarrow> (\<exists>outp target query keys ptr' queue'.
               ?F = Inr (outp, target, query, keys)
               \<and> dequeue_and_enqueue hp (enqueue_gather env) keys (queue_ptr s) (queue s)
                   = Inr (ptr', queue')
               \<and> outp \<noteq> [] \<and> 5 \<le> ncols outp)"
  proof
    assume "\<exists>loss log s'. ?R = Inr (loss, log, s')"
    then obtain loss log s' where R: "?R = Inr (loss, log, s')" by blast
    show "\<exists>outp target query keys ptr' queue'.
               ?F = Inr (outp, target, query, keys)
               \<and> dequeue_and_enqueue hp (enqueue_gather env) keys (queue_ptr s) (queue s)
                   = Inr (ptr', queue')
               \<and> outp \<noteq> [] \<and> 5 \<le> ncols outp"
    proof (cases ?F)
      case (Inl e)
      then show ?thesis using fl [OF Inl] R by simp
    next
      case (Inr r)
      obtain outp target query keys where r: "r = (outp, target, query, keys)" by (cases r)
      note f = Inr [unfolded r]
      show ?thesis
      proof (cases "dequeue_and_enqueue hp (enqueue_gather env) keys (queue_ptr s) (queue s)")
        case (Inl e)
        then show ?thesis using el [OF f Inl] R by simp
      next
        case (Inr st)
        obtain ptr' queue' where st: "st = (ptr', queue')" by (cases st)
        note dq = Inr [unfolded st]
        show ?thesis
        proof (cases "precision_at_1_5 ext outp target")
          case (Inl e)
          then show ?thesis using pl [OF f dq Inl] R by simp
        next
          case (Inr acc)
          then have "outp \<noteq> [] \<and> 5 \<le> ncols outp"
            using precision_at_1_5_Inr_iff [of ext outp target] by blast
          then show ?thesis using f dq by blast
        qed
      qed
    qed
  next
    assume "\<exists>outp target query keys ptr' queue'.
               ?F = Inr (outp, target, query, keys)
               \<and> dequeue_and_enqueue hp (enqueue_gather env) keys (queue_ptr s) (queue s)
                   = Inr (ptr', queue')
               \<and> outp \<noteq> [] \<and> 5 \<le> ncols outp"
    then obtain outp target query keys ptr' queue' where
      f: "?F = Inr (outp, target, query, keys)"
      and dq: "dequeue_and_enqueue hp (enqueue_gather env) keys (queue_ptr s) (queue s)
                   = Inr (ptr', queue')"
      and ok: "outp \<noteq> [] \<and> 5 \<le> ncols outp"
      by blast
    from ok obtain acc where "precision_at_1_5 ext outp target = Inr acc"
      using precision_at_1_5_Inr_iff [of ext outp target] by blast
    then show "\<exists>loss log s'. ?R = Inr (loss, log, s')" using pr [OF f dq] by blast
  qed
  show ?thesis by (intro conjI a1 a2 b c d)
qed

theorem training_step_order_witness:
  "training_step (small_hp\<lparr>encoder_momentum := 0\<rparr>) stub_ext (knn_state\<lparr>encoder_k := [[1, 0]]\<rparr>) None
       [[1, 0], [0, 1]] [[0, 1], [0, 1]]
     = Inr (0, (0, 1, 1), knn_state\<lparr>queue := [[0, 0, 1, 3/5], [1, 1, 0, 4/5]], queue_ptr := 2\<rparr>)
   \<and> key_features stub_ext (knn_state\<lparr>encoder_k := [[1, 0]]\<rparr>) None [[0, 1], [0, 1]]
     = Inr [[0, 0], [0, 0]]
   \<and> training_step knn_hp stub_ext knn_state None [[1, 0]] [[1, 0]]
     = Inl (RuntimeError, knn_state\<lparr>queue := [[1, -1, 1, 3/5], [0, 0, 0, 4/5]], queue_ptr := 1\<rparr>)
   \<and> training_step (knn_hp\<lparr>metric := ''cosine''\<rparr>) stub_ext (knn_state\<lparr>encoder_k := [[1, 0]]\<rparr>) None
       [[1, 0]] [[1, 0]]
     = Inl (UnboundLocalError, knn_state)"
proof -
  let ?hp = "small_hp\<lparr>encoder_momentum := 0\<rparr>"
  let ?hc = "knn_hp\<lparr>metric := ''cosine''\<rparr>"
  let ?s = "knn_state\<lparr>encoder_k := [[1, 0]]\<rparr>"
  have m: "momentum_update_key_encoder ?hp ?s = knn_state"
    "momentum_update_key_encoder knn_hp knn_state = knn_state"
    "momentum_update_key_encoder ?hc ?s = knn_state"
    by (simp_all add: momentum_update_key_encoder_def small_hp_def knn_hp_def knn_state_def blend_def)
  have qs: "queue ?s = queue knn_state" "queue_ptr ?s = queue_ptr knn_state" by simp_all
  have c: "use_kmeans ?hp = False" "cross_entropy stub_ext = (\<lambda>outp target. 0)"
    by (simp_all add: small_hp_def stub_ext_def)

  have f1': "forward ?hp stub_ext knn_state None [[1, 0], [0, 1]] [[0, 1], [0, 1]] (queue knn_state)
       = Inr ([[0, 0, -1, 1, 3/5], [1, 1, 0, 0, 4/5]], [0, 0], [[1, 0], [0, 1]], [[0, 1], [0, 1]])"
    by (simp add: small_hp_def knn_state_def stub_ext_def eval_defs)
  have f1: "forward ?hp stub_ext (momentum_update_key_encoder ?hp ?s) None
              [[1, 0], [0, 1]] [[0, 1], [0, 1]] (queue ?s)
       = Inr ([[0, 0, -1, 1, 3/5], [1, 1, 0, 0, 4/5]], [0, 0], [[1, 0], [0, 1]], [[0, 1], [0, 1]])"
    unfolding m qs by (rule f1')
  have e1: "dequeue_and_enqueue ?hp (enqueue_gather None) [[0, 1], [0, 1]] (queue_ptr ?s) (queue ?s)
       = Inr (2, [[0, 0, 1, 3/5], [1, 1, 0, 4/5]])"
    by (simp add: small_hp_def knn_state_def enqueue_eval_defs ncols_def Let_def)
  have p1: "precision_at_1_5 stub_ext [[0, 0, -1, 1, 3/5], [1, 1, 0, 0, 4/5]] [0, 0] = Inr (1, 1)"
    by (simp add: precision_at_1_5_def ncols_def stub_ext_def)
  have k0: "key_features stub_ext ?s None [[0, 1], [0, 1]] = Inr [[0, 0], [0, 0]]"
    by (simp add: stub_ext_def knn_state_def eval_defs)
  note t1 = training_step_order [of ?hp stub_ext ?s None "[[1, 0], [0, 1]]" "[[0, 1], [0, 1]]",
      THEN conjunct2, THEN conjunct2, THEN conjunct2, THEN conjunct1, rule_format, OF f1,
      THEN conjunct2, THEN conjunct2, rule_format, OF e1, THEN conjunct2, rule_format, OF p1]
  have r1: "training_step ?hp stub_ext ?s None [[1, 0], [0, 1]] [[0, 1], [0, 1]]
     = Inr (0, (0, 1, 1), knn_state\<lparr>queue := [[0, 0, 1, 3/5], [1, 1, 0, 4/5]], queue_ptr := 2\<rparr>)"
    using t1 unfolding m c by simp

  have f2': "forward knn_hp stub_ext knn_state None [[1, 0]] [[1, 0]] (queue knn_state)
       = Inr ([[1, 8/5, 0]], [0], [[1, 0]], [[1, 0]])"
    by (simp add: knn_hp_def knn_state_def stub_ext_def eval_defs del: not_None_eq)
  have f2: "forward knn_hp stub_ext (momentum_update_key_encoder knn_hp knn_state) None
              [[1, 0]] [[1, 0]] (queue knn_state)
       = Inr ([[1, 8/5, 0]], [0], [[1, 0]], [[1, 0]])"
    unfolding m by (rule f2')
  have e2: "dequeue_and_enqueue knn_hp (enqueue_gather None) [[1, 0]] (queue_ptr knn_state) (queue knn_state)
       = Inr (1, [[1, -1, 1, 3/5], [0, 0, 0, 4/5]])"
    by (simp add: knn_hp_def knn_state_def enqueue_eval_defs ncols_def Let_def)
  have p2: "precision_at_1_5 stub_ext [[1, 8/5, 0]] [0] = Inl RuntimeError"
    by (simp add: precision_at_1_5_def ncols_def)
  note t2 = training_step_order [of knn_hp stub_ext knn_state None "[[1, 0]]" "[[1, 0]]",
      THEN conjunct2, THEN conjunct2, THEN conjunct2, THEN conjunct1, rule_format, OF f2,
      THEN conjunct2, THEN conjunct2, rule_format, OF e2, THEN conjunct1, rule_format, OF p2]
  have r2: "training_step knn_hp stub_ext knn_state None [[1, 0]] [[1, 0]]
     = Inl (RuntimeError, knn_state\<lparr>queue := [[1, -1, 1, 3/5], [0, 0, 0, 4/5]], queue_ptr := 1\<rparr>)"
    using t2 unfolding m by simp

  have f3': "forward ?hc stub_ext knn_state None [[1, 0]] [[1, 0]] (queue knn_state)
       = Inl UnboundLocalError"
    by (simp add: knn_hp_def knn_state_def stub_ext_def eval_defs)
  have f3: "forward ?hc stub_ext (momentum_update_key_encoder ?hc ?s) None [[1, 0]] [[1, 0]] (queue ?s)
       = Inl UnboundLocalError"
    unfolding m qs by (rule f3')
  note t3 = training_step_order [of ?hc stub_ext ?s None "[[1, 0]]" "[[1, 0]]",
      THEN conjunct2, THEN conjunct2, THEN conjunct1, rule_format, OF f3]
  have r3: "training_step ?hc stub_ext ?s None [[1, 0]] [[1, 0]] = Inl (UnboundLocalError, knn_state)"
    using t3 unfolding m by simp
  show ?thesis by (intro conjI r1 k0 r2 r3)
qed

end
